theory Spec2Isabelle
  imports Main
begin

section \<open>The blog generator of Holocron (holocron/ext/generators/blog.py)\<close>

text \<open>
  The theory embeds the class \<open>Blog\<close>: \<open>extract_posts\<close>, \<open>index\<close>, \<open>tags\<close>,
  \<open>feed\<close> and \<open>generate\<close>, together with the Atom template \<open>feed_template\<close>.
  What the module imports from elsewhere is modelled next to its first use: Python's
  \<open>sorted\<close>, list slicing, \<open>os.path.join\<close>, \<open>os.path.dirname\<close>, \<open>open\<close>,
  \<open>datetime.isoformat\<close> and Jinja's \<open>e\<close> filter follow their library
  semantics (POSIX paths); the document-list template is a parameter of the
  application; \<open>normalize_url\<close> and \<open>mkdir\<close> follow the specification's words.
\<close>

subsection \<open>Documents\<close>

text \<open>
  A document is an object of one of the content classes. \<open>isinstance(doc, Post)\<close>
  reads the class only, so the class is a field of the record. The attributes are the
  ones the generator and its Atom template read. \<open>created\<close> is the creation
  instant: the generator only compares these values with each other, so an instant is
  an integer (its position on the time line). \<open>tags\<close> is \<open>None\<close> when the
  object has no attribute \<open>tags\<close>.
\<close>

datatype doc_class = Post | Page | Static

text \<open>
  A reading of the calendar and the clock, and a \<open>datetime\<close> object: the reading
  with the offset from UTC in seconds, \<open>None\<close> for a naive object (no \<open>tzinfo\<close>).
\<close>

record clock =
  year :: nat
  month :: nat
  day :: nat
  hour :: nat
  minute :: nat
  second :: nat
  microsecond :: nat

record datetime = clock +
  utcoffset :: "int option"

record document =
  doc_class :: doc_class
  created :: int
  created_local :: datetime
  updated_local :: datetime
  title :: string
  abs_url :: string
  author :: string
  content :: string
  tags :: "string list option"

definition isinstance_Post :: "document \<Rightarrow> bool" where
  "isinstance_Post doc = (doc_class doc = Post)"

subsection \<open>Python's \<open>sorted\<close>\<close>

text \<open>
  \<open>sorted(iterable, key=..., reverse=...)\<close> is a stable sort on the keys. With
  \<open>reverse=True\<close> CPython reverses the list, sorts it stably in ascending order and
  reverses the result, so that elements with equal keys keep their order. The stable
  ascending sort is \<open>sort_key\<close> (every stable sort computes the same list).
\<close>

definition sorted_py :: "('a \<Rightarrow> 'k::linorder) \<Rightarrow> bool \<Rightarrow> 'a list \<Rightarrow> 'a list" where
  "sorted_py key reverse xs =
     (if reverse then rev (sort_key key (rev xs)) else sort_key key xs)"

subsection \<open>\<open>Blog.extract_posts\<close>\<close>

text \<open>
  \<^verbatim>\<open>posts = (doc for doc in documents if isinstance(doc, Post))\<close>
  \<^verbatim>\<open>posts = sorted(posts, key=lambda d: d.created, reverse=True)\<close>
\<close>

definition extract_posts :: "document list \<Rightarrow> document list" where
  "extract_posts documents =
     sorted_py (\<lambda>d. created d) True (filter (\<lambda>doc. isinstance_Post doc) documents)"

text \<open>A list of documents is in descending order of creation: most recent first.\<close>

definition created_descending :: "document list \<Rightarrow> bool" where
  "created_descending posts = sorted_wrt (\<lambda>a b. created b \<le> created a) posts"

subsection \<open>Example documents\<close>

definition dt0 :: datetime where
  "dt0 = \<lparr>year = 2024, month = 1, day = 1, hour = 0, minute = 0, second = 0,
          microsecond = 0, utcoffset = None\<rparr>"

definition mk_doc :: "doc_class \<Rightarrow> int \<Rightarrow> string \<Rightarrow> string list option \<Rightarrow> document" where
  "mk_doc c t name ts =
     \<lparr>doc_class = c, created = t, created_local = dt0, updated_local = dt0,
      title = name, abs_url = ''http://example.com/'' @ name, author = ''me'',
      content = ''<script>'', tags = ts\<rparr>"

subsection \<open>\<open>Blog.tags\<close>: the dictionary of tags\<close>

text \<open>
  \<^verbatim>\<open>tags = defaultdict(list)\<close>
  \<^verbatim>\<open>for post in posts:\<close>
  \<^verbatim>\<open>    for tag in getattr(post, 'tags', []):\<close>
  \<^verbatim>\<open>        tags[tag].append(post)\<close>
  The dictionary is an association list in the order in which the keys were first
  stored, which is the order in which Python iterates over it. \<open>list_append\<close> is
  \<open>tags[tag].append(post)\<close>: a missing key is stored with the empty list first.
  \<open>getitem\<close> is the read \<open>tags[tag]\<close>.
\<close>

definition post_tags :: "document \<Rightarrow> string list" where
  "post_tags post = (case tags post of None \<Rightarrow> [] | Some ts \<Rightarrow> ts)"

fun list_append :: "string \<Rightarrow> document \<Rightarrow> (string \<times> document list) list \<Rightarrow> (string \<times> document list) list" where
  "list_append tag post [] = [(tag, [post])]"
| "list_append tag post ((k, v) # rest) =
     (if k = tag then (k, v @ [post]) # rest else (k, v) # list_append tag post rest)"

definition tags_dict :: "document list \<Rightarrow> (string \<times> document list) list" where
  "tags_dict posts =
     fold (\<lambda>post d. fold (\<lambda>tag d'. list_append tag post d') (post_tags post) d) posts []"

definition getitem :: "(string \<times> document list) list \<Rightarrow> string \<Rightarrow> document list" where
  "getitem d tag = (case map_of d tag of None \<Rightarrow> [] | Some v \<Rightarrow> v)"


text \<open>The shape of a dictionary built this way: no key twice, no empty group.\<close>

definition dict_ok :: "(string \<times> document list) list \<Rightarrow> bool" where
  "dict_ok d = (distinct (map fst d) \<and> (\<forall>(k, v) \<in> set d. v \<noteq> []))"


text \<open>Three posts, most recent first; the second has no attribute \<open>tags\<close>.\<close>

definition post_b :: document where "post_b = mk_doc Post 3 ''b'' (Some [''go'', ''py''])"
definition post_a :: document where "post_a = mk_doc Post 2 ''a'' None"
definition post_c :: document where "post_c = mk_doc Post 1 ''c'' (Some [''py''])"

subsection \<open>Python's list slice \<open>xs[:n]\<close>\<close>

text \<open>
  A negative bound counts from the end of the list; the bound is clamped to the list, so
  no slice raises.
\<close>

definition slice_to :: "'a list \<Rightarrow> int \<Rightarrow> 'a list" where
  "slice_to xs n =
     (if n < 0 then take (nat (max 0 (int (length xs) + n))) xs
      else take (nat (min n (int (length xs)))) xs)"

subsection \<open>Paths: \<open>os.path.join\<close> and \<open>os.path.dirname\<close> (POSIX)\<close>

text \<open>
  \<open>join\<close> is \<open>os.path.join\<close> of two components (of three, it is applied
  twice, as the library's loop does): a component that starts with the separator replaces
  what stands before it. \<open>dirname\<close> is the text up to the last separator, without
  its trailing separators unless it consists of separators only.
\<close>

definition endswith_sep :: "string \<Rightarrow> bool" where
  "endswith_sep p = (p \<noteq> [] \<and> last p = CHR ''/'')"

definition startswith_sep :: "string \<Rightarrow> bool" where
  "startswith_sep p = (case p of [] \<Rightarrow> False | c # _ \<Rightarrow> c = CHR ''/'')"

definition join :: "string \<Rightarrow> string \<Rightarrow> string" where
  "join path b =
     (if startswith_sep b then b
      else if path = [] \<or> endswith_sep path then path @ b
      else path @ ''/'' @ b)"

definition rstrip_sep :: "string \<Rightarrow> string" where
  "rstrip_sep p = rev (dropWhile (\<lambda>c. c = CHR ''/'') (rev p))"

definition dirname :: "string \<Rightarrow> string" where
  "dirname p =
     (let head = rev (dropWhile (\<lambda>c. c \<noteq> CHR ''/'') (rev p))
      in if head \<noteq> [] \<and> head \<noteq> replicate (length head) (CHR ''/'')
         then rstrip_sep head else head)"

subsection \<open>The file system\<close>

text \<open>
  The state the generator changes. A node of the file system is named by the list of
  the names on the way from the root to it; \<open>dirs\<close> holds the directories that
  exist besides the root (the empty list), \<open>files\<close> the regular files with their
  contents, \<open>cwd\<close> the current directory. Links, permissions and limits of the
  device are not modelled.

  The errors are the exceptions of the model: \<open>FileNotFoundError\<close>,
  \<open>NotADirectoryError\<close> and \<open>IsADirectoryError\<close> are the \<open>OSError\<close>s of
  \<open>open\<close> (the specification's FileSystemError); \<open>RenderError\<close> stands for any
  exception of a template.
\<close>

datatype error = FileNotFoundError | NotADirectoryError | IsADirectoryError | RenderError

record filesystem =
  cwd :: "string list"
  dirs :: "string list set"
  files :: "string list \<rightharpoonup> string"

definition is_dir :: "filesystem \<Rightarrow> string list \<Rightarrow> bool" where
  "is_dir fs node = (node = [] \<or> node \<in> dirs fs)"

text \<open>
  \<open>split_sep\<close> is \<open>path.split('/')\<close>; the components of a path are its nonempty
  pieces (a doubled separator names nothing). A path that starts with the separator is
  resolved from the root, any other from the current directory.
\<close>

fun split_sep :: "string \<Rightarrow> string list" where
  "split_sep [] = [[]]"
| "split_sep (c # cs) =
     (if c = CHR ''/'' then [] # split_sep cs
      else (case split_sep cs of [] \<Rightarrow> [[c]] | w # ws \<Rightarrow> (c # w) # ws))"

definition components :: "string \<Rightarrow> string list" where
  "components path = filter (\<lambda>c. c \<noteq> []) (split_sep path)"

definition start :: "filesystem \<Rightarrow> string \<Rightarrow> string list" where
  "start fs path = (if startswith_sep path then [] else cwd fs)"

text \<open>
  The walk of the kernel along the components that must be directories: \<open>.\<close> stays,
  \<open>..\<close> goes up, a name goes down into a directory; a regular file on the way is
  \<open>ENOTDIR\<close>, a missing name is \<open>ENOENT\<close>.
\<close>

fun walk :: "filesystem \<Rightarrow> string list \<Rightarrow> string list \<Rightarrow> error + string list" where
  "walk fs cur [] = Inr cur"
| "walk fs cur (c # cs) =
     (if c = ''.'' then walk fs cur cs
      else if c = ''..'' then walk fs (butlast cur) cs
      else if is_dir fs (cur @ [c]) then walk fs (cur @ [c]) cs
      else if cur @ [c] \<in> dom (files fs) then Inl NotADirectoryError
      else Inl FileNotFoundError)"

text \<open>
  \<open>open_w\<close> is \<open>open(path, 'w', encoding='utf-8')\<close>, the system call with
  \<open>O_WRONLY | O_CREAT | O_TRUNC\<close>: the empty path is \<open>ENOENT\<close>; the components
  before the last are walked; a path that names a directory (only separators, a
  trailing separator, a last component \<open>.\<close> or \<open>..\<close>, or the name of a directory)
  is \<open>EISDIR\<close>; otherwise the file is created or emptied. The result is the node of
  the open file and the new state. \<open>fwrite\<close> is \<open>f.write(s)\<close> followed by the close
  of the file at the end of the \<open>with\<close> block.
\<close>

definition open_w :: "string \<Rightarrow> filesystem \<Rightarrow> error + (string list \<times> filesystem)" where
  "open_w path fs =
     (if path = [] then Inl FileNotFoundError
      else if components path = [] then Inl IsADirectoryError
      else case walk fs (start fs path) (butlast (components path)) of
             Inl err \<Rightarrow> Inl err
           | Inr d \<Rightarrow>
               (if endswith_sep path \<or> last (components path) = ''.'' \<or>
                   last (components path) = ''..'' \<or>
                   is_dir fs (d @ [last (components path)])
                then Inl IsADirectoryError
                else Inr (d @ [last (components path)],
                          fs\<lparr>files := (files fs)(d @ [last (components path)] \<mapsto> [])\<rparr>)))"

definition fwrite :: "string list \<Rightarrow> string \<Rightarrow> filesystem \<Rightarrow> filesystem" where
  "fwrite node s fs = fs\<lparr>files := (files fs)(node \<mapsto> s)\<rparr>"

text \<open>
  Modelled from the spec: \<open>holocron.utils.mkdir\<close> is not among the sources. The
  specification says of it: ensure this directory exists (create recursively if
  missing); creating an already-existing directory is not an error; filesystem failures
  propagate as FileSystemError. So \<open>mkdir\<close> goes along the components of the path and
  creates every directory that is missing; it fails only where a regular file stands in
  the way, and then leaves the state as it was.
\<close>

fun makedirs :: "filesystem \<Rightarrow> string list \<Rightarrow> string list \<Rightarrow> error + filesystem" where
  "makedirs fs cur [] = Inr fs"
| "makedirs fs cur (c # cs) =
     (if c = ''.'' then makedirs fs cur cs
      else if c = ''..'' then makedirs fs (butlast cur) cs
      else if cur @ [c] \<in> dom (files fs) then Inl NotADirectoryError
      else makedirs (fs\<lparr>dirs := insert (cur @ [c]) (dirs fs)\<rparr>) (cur @ [c]) cs)"

definition mkdir :: "string \<Rightarrow> filesystem \<Rightarrow> error + filesystem" where
  "mkdir path fs = makedirs fs (start fs path) (components path)"

subsection \<open>The application: configuration and template\<close>

text \<open>
  \<open>conf\<close> holds the keys of \<open>self.app.conf\<close> the generator reads:
  \<open>paths.output\<close>, \<open>generators.blog.index.save_as\<close>,
  \<open>generators.blog.tags.output\<close>, \<open>generators.blog.tags.save_as\<close>,
  \<open>generators.blog.feed.save_as\<close>, \<open>generators.blog.feed.posts_number\<close>,
  \<open>sitename\<close> and \<open>siteurl\<close>. \<open>template\<close> is the rendering of
  \<open>document-list.html\<close> with \<open>posts\<close> and \<open>sitename\<close>; it belongs to the
  theme and may raise.
\<close>

record conf =
  paths_output :: string
  index_save_as :: string
  tags_output :: string
  tags_save_as :: string
  feed_save_as :: string
  feed_posts_number :: int
  sitename :: string
  siteurl :: string

record app =
  conf :: conf
  template :: "document list \<Rightarrow> string \<Rightarrow> error + string"

subsection \<open>\<open>normalize_url\<close>\<close>

text \<open>
  Modelled from the spec: \<open>holocron.utils.normalize_url\<close> is not among the sources.
  The specification says of it: normalized \<open>siteUrl\<close> (remove redundant slashes, ensure
  canonical absolute form, no trailing modification beyond normalization); both URLs are
  absolute and normalized, with no double slashes. So \<open>normalize_url\<close> keeps the
  scheme \<open>http://\<close> or \<open>https://\<close> of the URL, or puts \<open>http://\<close> before a
  URL without one, and in what follows the scheme it removes the slashes at the front
  and replaces every run of slashes by one slash. \<open>double_sep\<close> says that a text
  holds two slashes in a row.
\<close>

fun squeeze_sep :: "string \<Rightarrow> string" where
  "squeeze_sep (a # b # cs) =
     (if a = CHR ''/'' \<and> b = CHR ''/'' then squeeze_sep (b # cs)
      else a # squeeze_sep (b # cs))"
| "squeeze_sep cs = cs"

fun double_sep :: "string \<Rightarrow> bool" where
  "double_sep (a # b # cs) = ((a = CHR ''/'' \<and> b = CHR ''/'') \<or> double_sep (b # cs))"
| "double_sep cs = False"

definition url_scheme :: "string \<Rightarrow> string" where
  "url_scheme url =
     (if take 8 url = ''https://'' then ''https://'' else ''http://'')"

definition url_rest :: "string \<Rightarrow> string" where
  "url_rest url =
     (if take 8 url = ''https://'' then drop 8 url
      else if take 7 url = ''http://'' then drop 7 url
      else url)"

definition normalize_url :: "string \<Rightarrow> string" where
  "normalize_url url =
     url_scheme url @ squeeze_sep (dropWhile (\<lambda>c. c = CHR ''/'') (url_rest url))"

subsection \<open>\<open>Blog.index\<close>\<close>

text \<open>
  \<^verbatim>\<open>save_as = os.path.join(self._output, save_as)\<close>
  \<^verbatim>\<open>with open(save_as, 'w', encoding='utf-8') as f:\<close>
  \<^verbatim>\<open>    f.write(self._template.render(posts=posts, sitename=...))\<close>
  The file is opened before the template is rendered. An operation returns the exception
  that ended it, if any, and the file system it leaves.
\<close>

definition index :: "app \<Rightarrow> document list \<Rightarrow> filesystem \<Rightarrow> error option \<times> filesystem" where
  "index a posts fs =
     (let save_as = join (paths_output (conf a)) (index_save_as (conf a))
      in case open_w save_as fs of
           Inl err \<Rightarrow> (Some err, fs)
         | Inr (f, fs1) \<Rightarrow>
             (case template a posts (sitename (conf a)) of
                Inl err \<Rightarrow> (Some err, fs1)
              | Inr page \<Rightarrow> (None, fwrite f page fs1)))"

subsection \<open>\<open>Blog.tags\<close>: the pages\<close>

text \<open>
  The loop \<open>for tag in tags\<close> over the keys of the dictionary: \<open>mkdir\<close> of the
  tag's directory, then the page of the group \<open>tags[tag]\<close>. The method is
  \<open>tags_blog\<close> here (\<open>tags\<close> is the attribute of a document).
\<close>

fun tags_pages ::
  "app \<Rightarrow> (string \<times> document list) list \<Rightarrow> string list \<Rightarrow> filesystem \<Rightarrow> error option \<times> filesystem"
where
  "tags_pages a d [] fs = (None, fs)"
| "tags_pages a d (tag # rest) fs =
     (let path = join (join (paths_output (conf a)) (tags_output (conf a))) tag
      in case mkdir path fs of
           Inl err \<Rightarrow> (Some err, fs)
         | Inr fs1 \<Rightarrow>
             (case open_w (join path (tags_save_as (conf a))) fs1 of
                Inl err \<Rightarrow> (Some err, fs1)
              | Inr (f, fs2) \<Rightarrow>
                  (case template a (getitem d tag) (sitename (conf a)) of
                     Inl err \<Rightarrow> (Some err, fs2)
                   | Inr page \<Rightarrow> tags_pages a d rest (fwrite f page fs2))))"

definition tags_blog :: "app \<Rightarrow> document list \<Rightarrow> filesystem \<Rightarrow> error option \<times> filesystem" where
  "tags_blog a posts fs = tags_pages a (tags_dict posts) (map fst (tags_dict posts)) fs"

subsection \<open>\<open>datetime\<close>: \<open>utcnow\<close>, \<open>replace\<close>, \<open>isoformat\<close>\<close>

text \<open>
  \<open>datetime.datetime.utcnow()\<close> is the reading of the clock in UTC as a naive
  object; the reading is a parameter of \<open>feed\<close>. \<open>isoformat\<close> prints
  \<open>YYYY-MM-DDTHH:MM:SS\<close>, then the microseconds when they are not zero, then the
  offset of an aware object. \<open>zfill w n\<close> is the format \<open>%0wd\<close>.
\<close>

definition utcnow :: "clock \<Rightarrow> datetime" where
  "utcnow c =
     \<lparr>year = year c, month = month c, day = day c, hour = hour c, minute = minute c,
      second = second c, microsecond = microsecond c, utcoffset = None\<rparr>"

definition replace_microsecond :: "datetime \<Rightarrow> nat \<Rightarrow> datetime" where
  "replace_microsecond d us = d\<lparr>microsecond := us\<rparr>"

fun str_nat :: "nat \<Rightarrow> string" where
  "str_nat n =
     (if n < 10 then [''0123456789'' ! n]
      else str_nat (n div 10) @ [''0123456789'' ! (n mod 10)])"

declare str_nat.simps [simp del]

definition zfill :: "nat \<Rightarrow> nat \<Rightarrow> string" where
  "zfill w n = replicate (w - length (str_nat n)) (CHR ''0'') @ str_nat n"

definition format_offset :: "int \<Rightarrow> string" where
  "format_offset off =
     (let s = nat \<bar>off\<bar>
      in (if off < 0 then ''-'' else ''+'') @
         zfill 2 (s div 3600) @ '':'' @ zfill 2 (s mod 3600 div 60) @
         (if s mod 60 \<noteq> 0 then '':'' @ zfill 2 (s mod 60) else []))"

definition isoformat :: "datetime \<Rightarrow> string" where
  "isoformat d =
     zfill 4 (year d) @ ''-'' @ zfill 2 (month d) @ ''-'' @ zfill 2 (day d) @ ''T'' @
     zfill 2 (hour d) @ '':'' @ zfill 2 (minute d) @ '':'' @ zfill 2 (second d) @
     (if microsecond d \<noteq> 0 then ''.'' @ zfill 6 (microsecond d) else []) @
     (case utcoffset d of None \<Rightarrow> [] | Some off \<Rightarrow> format_offset off)"

subsection \<open>Jinja's filter \<open>e\<close>\<close>

text \<open>
  \<open>markupsafe.escape\<close> on a plain string: the ampersand, the two angle brackets,
  the apostrophe and the double quote are replaced by their entities.
\<close>

definition escape_char :: "char \<Rightarrow> string" where
  "escape_char c =
     (if c = CHR ''&'' then ''&amp;''
      else if c = CHR ''>'' then ''&gt;''
      else if c = CHR ''<'' then ''&lt;''
      else if c = CHR 0x27 then ''&#39;''
      else if c = CHR 0x22 then ''&#34;''
      else [c])"

definition escape :: "string \<Rightarrow> string" where
  "escape s = concat (map escape_char s)"

subsection \<open>\<open>Blog.feed_template\<close>\<close>

text \<open>
  The template is the lines of the source joined by newlines. \<open>feed_head\<close> holds
  the lines before the \<open>for\<close> statement, \<open>feed_entry\<close> the lines of its body. The
  text before the \<open>for\<close> tag on its line (four spaces) is printed once, and so is the
  text after the \<open>endfor\<close> tag; the body is printed once per document, from the end of
  the \<open>for\<close> line to the four spaces before the \<open>endfor\<close> tag. The template
  is built with \<open>jinja2.Template\<close>, which does not escape by itself: only
  \<open>doc.content\<close> goes through \<open>e\<close>.
\<close>

record credentials =
  siteurl_self :: string
  siteurl_alt :: string
  cred_sitename :: string
  date :: datetime

definition newline :: string where
  "newline = [CHR 0x0A]"

fun join_lines :: "string list \<Rightarrow> string" where
  "join_lines [] = []"
| "join_lines [l] = l"
| "join_lines (l # m # ls) = l @ newline @ join_lines (m # ls)"

definition feed_head :: "credentials \<Rightarrow> string list" where
  \<open>feed_head credentials =
     [''<?xml version="1.0" encoding="utf-8"?>'',
      ''  <feed xmlns="http://www.w3.org/2005/Atom" >'',
      ''    <title>'' @ cred_sitename credentials @ '' Feed</title>'',
      ''    <updated>'' @ (isoformat (date credentials) @ ''Z'') @ ''</updated>'',
      ''    <id>'' @ siteurl_alt credentials @ ''</id>'',
      ''    '',
      ''    <link href="'' @ siteurl_self credentials @ ''" rel="self" />'',
      ''    <link href="'' @ siteurl_alt credentials @ ''" rel="alternate" />'',
      ''    '',
      ''    <generator>Holocron</generator>'']\<close>

definition feed_entry :: "document \<Rightarrow> string list" where
  \<open>feed_entry doc =
     [''    <entry>'',
      ''      <title>'' @ title doc @ ''</title>'',
      ''      <link href="'' @ abs_url doc @ ''" rel="alternate" />'',
      ''      <id>'' @ abs_url doc @ ''</id>'',
      ''      <published>'' @ isoformat (created_local doc) @ ''</published>'',
      ''      <updated>'' @ isoformat (updated_local doc) @ ''</updated>'',
      ''      <author>'',
      ''        <name>'' @ author doc @ ''</name>'',
      ''      </author>'',
      ''      <content type="html">'',
      ''        '' @ escape (content doc),
      ''      </content>'',
      ''    </entry>'']\<close>

definition feed_template :: "document list \<Rightarrow> credentials \<Rightarrow> string" where
  "feed_template documents credentials =
     join_lines (feed_head credentials) @ newline @ ''    '' @
     concat (map (\<lambda>doc. newline @ join_lines (feed_entry doc) @ newline @ ''    '') documents) @
     newline @ ''  </feed>''"

subsection \<open>\<open>Blog.feed\<close>\<close>

text \<open>
  \<open>feed_credentials\<close> is the dictionary \<open>credentials\<close> and \<open>feed_documents\<close>
  is \<open>posts[:posts_number]\<close>: the two arguments of the template. The directory of
  the file is made before the file is opened.
\<close>

definition feed_credentials :: "app \<Rightarrow> clock \<Rightarrow> credentials" where
  "feed_credentials a now =
     \<lparr>siteurl_self = normalize_url (siteurl (conf a)) @ feed_save_as (conf a),
      siteurl_alt = normalize_url (siteurl (conf a)),
      cred_sitename = sitename (conf a),
      date = replace_microsecond (utcnow now) 0\<rparr>"

definition feed_documents :: "app \<Rightarrow> document list \<Rightarrow> document list" where
  "feed_documents a posts = slice_to posts (feed_posts_number (conf a))"

definition feed :: "app \<Rightarrow> clock \<Rightarrow> document list \<Rightarrow> filesystem \<Rightarrow> error option \<times> filesystem" where
  "feed a now posts fs =
     (let credentials = feed_credentials a now;
          save_as = join (paths_output (conf a)) (feed_save_as (conf a));
          path = dirname save_as
      in case mkdir path fs of
           Inl err \<Rightarrow> (Some err, fs)
         | Inr fs1 \<Rightarrow>
             (case open_w save_as fs1 of
                Inl err \<Rightarrow> (Some err, fs1)
              | Inr (f, fs2) \<Rightarrow>
                  (None, fwrite f (feed_template (feed_documents a posts) credentials) fs2)))"

subsection \<open>\<open>Blog.generate\<close>\<close>

text \<open>An exception of one operation ends \<open>generate\<close>: the later ones do not run.\<close>

definition generate :: "app \<Rightarrow> clock \<Rightarrow> document list \<Rightarrow> filesystem \<Rightarrow> error option \<times> filesystem" where
  "generate a now documents fs =
     (let posts = extract_posts documents
      in case index a posts fs of
           (Some err, fs1) \<Rightarrow> (Some err, fs1)
         | (None, fs1) \<Rightarrow>
             (case tags_blog a posts fs1 of
                (Some err, fs2) \<Rightarrow> (Some err, fs2)
              | (None, fs2) \<Rightarrow> feed a now posts fs2))"

subsection \<open>An example application\<close>

text \<open>
  The template of the example prints the site name and the titles of the posts. The
  file system holds the output directory in the current directory.
\<close>

definition ex_conf :: conf where
  "ex_conf = \<lparr>paths_output = ''_build'', index_save_as = ''index.html'', tags_output = ''tags'',
      tags_save_as = ''index.html'', feed_save_as = ''feed/atom.xml'', feed_posts_number = 2,
      sitename = ''Blog'', siteurl = ''example.com//blog/''\<rparr>"

definition ex_app :: app where
  "ex_app = \<lparr>conf = ex_conf,
      template = (\<lambda>posts name. Inr (name @ '':'' @ concat (map title posts)))\<rparr>"

definition ex_clock :: clock where
  "ex_clock = \<lparr>year = 2024, month = 3, day = 9, hour = 7, minute = 5, second = 1,
      microsecond = 123456\<rparr>"

definition ex_fs :: filesystem where
  "ex_fs = \<lparr>cwd = [''site''], dirs = {[''site''], [''site'', ''_build'']}, files = Map.empty\<rparr>"

text \<open>The same application with \<open>posts_number = -1\<close>.\<close>

definition ex_app_neg :: app where
  "ex_app_neg = ex_app\<lparr>conf := ex_conf\<lparr>feed_posts_number := - 1\<rparr>\<rparr>"

subsection \<open>The example, evaluated\<close>

text \<open>
  The file system of the example after \<open>mkdir\<close> of the feed's directory, the node
  of the feed, and the lines of the feed of the example for the posts \<open>post_b\<close> and
  \<open>post_a\<close>.
\<close>

definition ex_fs1 :: filesystem where
  "ex_fs1 = \<lparr>cwd = [''site''],
      dirs = {[''site''], [''site'', ''_build''], [''site'', ''_build'', ''feed'']},
      files = Map.empty\<rparr>"

definition ex_feed_node :: "string list" where
  "ex_feed_node = [''site'', ''_build'', ''feed'', ''atom.xml'']"

definition ex_feed_lines :: "string list" where
  \<open>ex_feed_lines =
     [''<?xml version="1.0" encoding="utf-8"?>'',
      ''  <feed xmlns="http://www.w3.org/2005/Atom" >'',
      ''    <title>Blog Feed</title>'',
      ''    <updated>2024-03-09T07:05:01Z</updated>'',
      ''    <id>http://example.com/blog/</id>'',
      ''    '',
      ''    <link href="http://example.com/blog/feed/atom.xml" rel="self" />'',
      ''    <link href="http://example.com/blog/" rel="alternate" />'',
      ''    '',
      ''    <generator>Holocron</generator>'',
      ''    '',
      ''    <entry>'',
      ''      <title>b</title>'',
      ''      <link href="http://example.com/b" rel="alternate" />'',
      ''      <id>http://example.com/b</id>'',
      ''      <published>2024-01-01T00:00:00</published>'',
      ''      <updated>2024-01-01T00:00:00</updated>'',
      ''      <author>'',
      ''        <name>me</name>'',
      ''      </author>'',
      ''      <content type="html">'',
      ''        &lt;script&gt;'',
      ''      </content>'',
      ''    </entry>'',
      ''    '',
      ''    <entry>'',
      ''      <title>a</title>'',
      ''      <link href="http://example.com/a" rel="alternate" />'',
      ''      <id>http://example.com/a</id>'',
      ''      <published>2024-01-01T00:00:00</published>'',
      ''      <updated>2024-01-01T00:00:00</updated>'',
      ''      <author>'',
      ''        <name>me</name>'',
      ''      </author>'',
      ''      <content type="html">'',
      ''        &lt;script&gt;'',
      ''      </content>'',
      ''    </entry>'',
      ''    '',
      ''  </feed>'']\<close>

subsection \<open>The application with a template for posts only\<close>

text \<open>
  \<open>posts_only a\<close> is the application \<open>a\<close> with a template that raises for every
  list holding a document that is not a \<open>Post\<close>, and renders every other list as the
  template of \<open>a\<close> does. \<open>ex_documents\<close> are the posts of the example between a
  page and a static file.
\<close>

definition posts_only :: "app \<Rightarrow> app" where
  "posts_only a =
     a\<lparr>template := (\<lambda>posts name.
          if list_all isinstance_Post posts then template a posts name else Inl RenderError)\<rparr>"

definition ex_documents :: "document list" where
  "ex_documents =
     [mk_doc Page 9 ''p'' (Some [''go'']), post_a, mk_doc Static 5 ''s'' None, post_b, post_c]"

subsection \<open>The content element of an entry\<close>


definition special :: "char \<Rightarrow> bool" where
  "special c = (c = CHR ''&'' \<or> c = CHR ''<'' \<or> c = CHR ''>'' \<or> c = CHR 0x27 \<or> c = CHR 0x22)"

subsection \<open>Directories that exist\<close>

text \<open>
  \<open>dir_exists fs path\<close>: the walk along all the components of the path ends in a
  directory. The empty path, which \<open>dirname\<close> gives for a file name alone, stands
  for the current directory. \<open>ex_fs0\<close> is a file system in which the output directory
  of the example is missing.
\<close>

definition dir_exists :: "filesystem \<Rightarrow> string \<Rightarrow> bool" where
  "dir_exists fs path =
     (case walk fs (start fs path) (components path) of Inl err \<Rightarrow> False | Inr d \<Rightarrow> True)"

definition ex_fs0 :: filesystem where
  "ex_fs0 = \<lparr>cwd = [''site''], dirs = {[''site'']}, files = Map.empty\<rparr>"

subsection \<open>A second run\<close>

text \<open>
  What the file systems of two runs are compared with. In \<open>wf_fs fs\<close> no node is
  both a directory and a regular file. \<open>extends t s\<close>: the file system \<open>t\<close> has
  the current directory of \<open>s\<close> and holds every directory and every file of \<open>s\<close>
  (whatever the contents). \<open>writes W fs\<close> is \<open>fs\<close> after the files of the map
  \<open>W\<close> have been written.
\<close>

definition wf_fs :: "filesystem \<Rightarrow> bool" where
  "wf_fs fs = (dirs fs \<inter> dom (files fs) = {})"

definition extends :: "filesystem \<Rightarrow> filesystem \<Rightarrow> bool" where
  "extends t s = (cwd t = cwd s \<and> dirs s \<subseteq> dirs t \<and> dom (files s) \<subseteq> dom (files t))"

definition writes :: "(string list \<rightharpoonup> string) \<Rightarrow> filesystem \<Rightarrow> filesystem" where
  "writes W fs = fs\<lparr>files := files fs ++ W\<rparr>"

section \<open>Properties of \<open>sorted_py\<close>\<close>

lemma sorted_py_set: "set (sorted_py key r xs) = set xs"
  by (simp add: sorted_py_def)

lemma sorted_py_length: "length (sorted_py key r xs) = length xs"
  by (simp add: sorted_py_def)

lemma sorted_py_reverse_descending:
  "sorted_wrt (\<lambda>a b. key b \<le> key a) (sorted_py key True xs)"
proof -
  have "sorted (map key (sort_key key (rev xs)))"
    by (rule sorted_sort_key)
  then have "sorted_wrt (\<lambda>a b. key a \<le> key b) (sort_key key (rev xs))"
    by (simp add: sorted_map)
  then show ?thesis
    by (simp add: sorted_py_def sorted_wrt_rev)
qed

lemma sorted_py_stable:
  "filter (\<lambda>x. key x = k) (sorted_py key r xs) = filter (\<lambda>x. key x = k) xs"
proof (cases r)
  case True
  have "filter (\<lambda>x. key x = k) (sort_key key (rev xs)) = filter (\<lambda>x. key x = k) (rev xs)"
    by (rule sort_key_stable)
  then have "rev (filter (\<lambda>x. key x = k) (sort_key key (rev xs))) = filter (\<lambda>x. key x = k) xs"
    by (simp add: rev_filter)
  with True show ?thesis
    by (simp add: sorted_py_def rev_filter)
next
  case False
  then show ?thesis
    by (simp add: sorted_py_def sort_key_stable)
qed

section \<open>Properties of the dictionary of tags\<close>

lemma getitem_list_append:
  "getitem (list_append t p d) T = getitem d T @ (if t = T then [p] else [])"
  by (induction d) (auto simp: getitem_def)

lemma keys_list_append:
  "map fst (list_append t p d) = (if t \<in> set (map fst d) then map fst d else map fst d @ [t])"
  by (induction d) (auto simp: rev_image_eqI)

lemma distinct_list_append:
  "distinct (map fst d) \<Longrightarrow> distinct (map fst (list_append t p d))"
  by (simp add: keys_list_append)

lemma nonempty_list_append:
  "\<forall>(k, v) \<in> set d. v \<noteq> [] \<Longrightarrow> \<forall>(k, v) \<in> set (list_append t p d). v \<noteq> []"
  by (induction d) (auto split: if_splits)


lemma getitem_fold_tags:
  "getitem (fold (\<lambda>tag d'. list_append tag p d') ts d) T =
     getitem d T @ replicate (count_list ts T) p"
proof (induction ts arbitrary: d)
  case Nil
  then show ?case by simp
next
  case (Cons t ts)
  have "getitem (fold (\<lambda>tag d'. list_append tag p d') (t # ts) d) T =
        getitem (list_append t p d) T @ replicate (count_list ts T) p"
    using Cons.IH [of "list_append t p d"] by simp
  also have "\<dots> = getitem d T @ (if t = T then [p] else []) @ replicate (count_list ts T) p"
    by (simp add: getitem_list_append)
  also have "(if t = T then [p] else []) @ replicate (count_list ts T) p =
             replicate (count_list (t # ts) T) p"
    by simp
  finally show ?case .
qed

lemma getitem_fold_posts:
  "getitem (fold (\<lambda>post d. fold (\<lambda>tag d'. list_append tag post d') (post_tags post) d) posts d0) T =
     getitem d0 T @ concat (map (\<lambda>p. replicate (count_list (post_tags p) T) p) posts)"
  by (induction posts arbitrary: d0) (auto simp: getitem_fold_tags)

lemma getitem_tags_dict:
  "getitem (tags_dict posts) T = concat (map (\<lambda>p. replicate (count_list (post_tags p) T) p) posts)"
proof -
  have "getitem [] T = []"
    by (simp add: getitem_def)
  then show ?thesis
    by (simp add: tags_dict_def getitem_fold_posts)
qed

lemma dict_ok_list_append: "dict_ok d \<Longrightarrow> dict_ok (list_append t p d)"
proof -
  assume ok: "dict_ok d"
  have "distinct (map fst (list_append t p d))"
    using ok by (simp add: dict_ok_def distinct_list_append)
  moreover have "\<forall>(k, v) \<in> set (list_append t p d). v \<noteq> []"
    using ok unfolding dict_ok_def by (intro nonempty_list_append) simp
  ultimately show ?thesis
    by (simp add: dict_ok_def)
qed

lemma dict_ok_fold_tags: "dict_ok d \<Longrightarrow> dict_ok (fold (\<lambda>tag d'. list_append tag p d') ts d)"
  by (induction ts arbitrary: d) (auto simp: dict_ok_list_append)

lemma dict_ok_fold_posts:
  "dict_ok d0 \<Longrightarrow>
   dict_ok (fold (\<lambda>post d. fold (\<lambda>tag d'. list_append tag post d') (post_tags post) d) posts d0)"
  by (induction posts arbitrary: d0) (auto simp: dict_ok_fold_tags)

lemma dict_ok_tags_dict: "dict_ok (tags_dict posts)"
proof -
  have "dict_ok []"
    by (simp add: dict_ok_def)
  then show ?thesis
    by (simp add: tags_dict_def dict_ok_fold_posts)
qed

lemma dict_ok_entry: "dict_ok d \<Longrightarrow> (T, g) \<in> set d \<Longrightarrow> getitem d T = g \<and> g \<noteq> []"
  by (auto simp: dict_ok_def getitem_def)

lemma dict_ok_getitem: "getitem d T \<noteq> [] \<Longrightarrow> (T, getitem d T) \<in> set d"
  by (auto simp: getitem_def split: option.splits dest: map_of_SomeD)

lemma tags_dict_entry:
  "(T, g) \<in> set (tags_dict posts) \<Longrightarrow>
   g = concat (map (\<lambda>p. replicate (count_list (post_tags p) T) p) posts)"
proof -
  assume "(T, g) \<in> set (tags_dict posts)"
  then have "getitem (tags_dict posts) T = g"
    using dict_ok_entry [OF dict_ok_tags_dict] by blast
  then show ?thesis
    by (simp add: getitem_tags_dict)
qed

lemma tags_dict_complete:
  assumes "p \<in> set posts" and "T \<in> set (post_tags p)"
  shows "(T, getitem (tags_dict posts) T) \<in> set (tags_dict posts) \<and> p \<in> set (getitem (tags_dict posts) T)"
proof -
  have "0 < count_list (post_tags p) T"
    using assms(2) count_list_0_iff [of "post_tags p" T] by auto
  then have "p \<in> set (replicate (count_list (post_tags p) T) p)"
    by simp
  with assms(1) have in_g: "p \<in> set (getitem (tags_dict posts) T)"
    by (auto simp: getitem_tags_dict)
  then have "getitem (tags_dict posts) T \<noteq> []"
    by auto
  then show ?thesis
    using in_g dict_ok_getitem by blast
qed

lemma count_list_distinct:
  "distinct xs \<Longrightarrow> count_list xs x = (if x \<in> set xs then 1 else 0)"
  by (induction xs) auto

lemma sorted_wrt_replicate: "(\<And>x. P x x) \<Longrightarrow> sorted_wrt P (replicate k p)"
  by (induction k) auto

lemma replicate_groups_filter:
  "\<forall>p \<in> set posts. distinct (post_tags p) \<Longrightarrow>
   concat (map (\<lambda>p. replicate (count_list (post_tags p) T) p) posts) =
     filter (\<lambda>p. T \<in> set (post_tags p)) posts"
proof (induction posts)
  case Nil
  then show ?case by simp
next
  case (Cons p posts)
  have "count_list (post_tags p) T = (if T \<in> set (post_tags p) then 1 else 0)"
    using Cons.prems by (simp add: count_list_distinct)
  with Cons show ?case by simp
qed

lemma sorted_wrt_replicate_groups:
  assumes "sorted_wrt P posts" and "\<And>x. P x x"
  shows "sorted_wrt P (concat (map (\<lambda>p. replicate (n p) p) posts))"
  using assms(1)
proof (induction posts)
  case Nil
  then show ?case by simp
next
  case (Cons p posts)
  have "sorted_wrt P (replicate (n p) p)"
    using assms(2) by (rule sorted_wrt_replicate)
  with Cons show ?case
    by (auto simp: sorted_wrt_append)
qed

lemma tags_dict_no_tags:
  "post_tags q = [] \<Longrightarrow> tags_dict (xs @ q # ys) = tags_dict (xs @ ys)"
  by (simp add: tags_dict_def)


lemma tags_dict_member:
  assumes "(T, g) \<in> set (tags_dict posts)" and "p \<in> set g"
  shows "p \<in> set posts \<and> T \<in> set (post_tags p)"
proof -
  have "g = concat (map (\<lambda>p. replicate (count_list (post_tags p) T) p) posts)"
    using assms(1) by (rule tags_dict_entry)
  with assms(2) obtain q where q: "q \<in> set posts" "p \<in> set (replicate (count_list (post_tags q) T) q)"
    by auto
  then have "p = q" and "count_list (post_tags q) T \<noteq> 0"
    by (auto simp: set_replicate_conv_if split: if_splits)
  with q(1) show ?thesis
    by (simp add: count_list_0_iff)
qed

lemma ex_post_tags:
  "post_tags post_b = [''go'', ''py'']" "post_tags post_a = []" "post_tags post_c = [''py'']"
  by (simp_all add: post_tags_def post_a_def post_b_def post_c_def mk_doc_def)

lemma ex_created: "created post_b = 3" "created post_a = 2" "created post_c = 1"
  by (simp_all add: post_a_def post_b_def post_c_def mk_doc_def)

section \<open>Properties of the slice and of \<open>feed\<close>\<close>

lemma slice_to_nonneg: "0 \<le> n \<Longrightarrow> slice_to xs n = take (nat n) xs"
  by (simp add: slice_to_def min_def)

lemma slice_to_negative: "n < 0 \<Longrightarrow> slice_to xs n = take (nat (int (length xs) + n)) xs"
  by (simp add: slice_to_def max_def)

lemma set_slice_to: "set (slice_to xs n) \<subseteq> set xs"
  by (simp add: slice_to_def set_take_subset)

lemma created_descending_take: "created_descending xs \<Longrightarrow> created_descending (take k xs)"
  by (simp add: created_descending_def sorted_wrt_take)

lemma set_getitem_tags_dict: "set (getitem (tags_dict posts) T) \<subseteq> set posts"
  by (auto simp: getitem_tags_dict)

lemma feed_written:
  "mkdir (dirname (join (paths_output (conf a)) (feed_save_as (conf a)))) fs = Inr fs1 \<Longrightarrow>
   open_w (join (paths_output (conf a)) (feed_save_as (conf a))) fs1 = Inr (f, fs2) \<Longrightarrow>
   feed a now posts fs =
     (None, fwrite f (feed_template (feed_documents a posts) (feed_credentials a now)) fs2)"
  by (simp add: feed_def Let_def)

lemma feed_error:
  "fst (feed a now posts fs) =
     (case mkdir (dirname (join (paths_output (conf a)) (feed_save_as (conf a)))) fs of
        Inl err \<Rightarrow> Some err
      | Inr fs1 \<Rightarrow>
          (case open_w (join (paths_output (conf a)) (feed_save_as (conf a))) fs1 of
             Inl err \<Rightarrow> Some err
           | Inr r \<Rightarrow> None))"
  by (simp add: feed_def Let_def split: sum.splits prod.splits)

section \<open>The example\<close>

lemma ex_conf_fields:
  "paths_output (conf ex_app) = ''_build''" "feed_save_as (conf ex_app) = ''feed/atom.xml''"
  "feed_posts_number (conf ex_app) = 2" "sitename (conf ex_app) = ''Blog''"
  "siteurl (conf ex_app) = ''example.com//blog/''"
  "index_save_as (conf ex_app) = ''index.html''" "tags_output (conf ex_app) = ''tags''"
  "tags_save_as (conf ex_app) = ''index.html''"
  by (simp_all add: ex_app_def ex_conf_def)

lemma ex_neg_conf_fields:
  "paths_output (conf ex_app_neg) = ''_build''" "feed_save_as (conf ex_app_neg) = ''feed/atom.xml''"
  "feed_posts_number (conf ex_app_neg) = - 1" "sitename (conf ex_app_neg) = ''Blog''"
  "siteurl (conf ex_app_neg) = ''example.com//blog/''"
  by (simp_all add: ex_app_neg_def ex_app_def ex_conf_def)

lemma ex_feed_path:
  "join ''_build'' ''feed/atom.xml'' = ''_build/feed/atom.xml''"
  "dirname ''_build/feed/atom.xml'' = ''_build/feed''"
  by (simp_all add: join_def startswith_sep_def endswith_sep_def dirname_def rstrip_sep_def)

lemma ex_components:
  "components ''_build/feed'' = [''_build'', ''feed'']"
  "components ''_build/feed/atom.xml'' = [''_build'', ''feed'', ''atom.xml'']"
  by (simp_all add: components_def)

lemma ex_mkdir_feed: "mkdir ''_build/feed'' ex_fs = Inr ex_fs1"
  by (simp add: mkdir_def ex_components start_def startswith_sep_def ex_fs_def ex_fs1_def
      insert_commute)

lemma ex_open_feed:
  "open_w ''_build/feed/atom.xml'' ex_fs1 =
     Inr (ex_feed_node, ex_fs1\<lparr>files := [ex_feed_node \<mapsto> []]\<rparr>)"
  by (simp add: open_w_def ex_components start_def startswith_sep_def endswith_sep_def
      is_dir_def ex_fs1_def ex_feed_node_def)

lemma ex_normalize_url: "normalize_url ''example.com//blog/'' = ''http://example.com/blog/''"
  by (simp add: normalize_url_def url_scheme_def url_rest_def)

lemma ex_zfill:
  "zfill 4 2024 = ''2024''" "zfill 2 3 = ''03''" "zfill 2 9 = ''09''" "zfill 2 7 = ''07''"
  "zfill 2 5 = ''05''" "zfill 2 (Suc 0) = ''01''" "zfill 2 0 = ''00''"
  by (simp_all add: zfill_def str_nat.simps)

lemma ex_isoformat:
  "isoformat dt0 = ''2024-01-01T00:00:00''"
  "isoformat (replace_microsecond (utcnow ex_clock) 0) = ''2024-03-09T07:05:01''"
  by (simp_all add: isoformat_def dt0_def replace_microsecond_def utcnow_def ex_clock_def ex_zfill)

lemma ex_escape: "escape ''<script>'' = ''&lt;script&gt;''"
  by (simp add: escape_def escape_char_def)

lemma ex_feed_entry:
  \<open>feed_entry (mk_doc c t name ts) =
     [''    <entry>'',
      ''      <title>'' @ name @ ''</title>'',
      ''      <link href="http://example.com/'' @ name @ ''" rel="alternate" />'',
      ''      <id>http://example.com/'' @ name @ ''</id>'',
      ''      <published>2024-01-01T00:00:00</published>'',
      ''      <updated>2024-01-01T00:00:00</updated>'',
      ''      <author>'',
      ''        <name>me</name>'',
      ''      </author>'',
      ''      <content type="html">'',
      ''        &lt;script&gt;'',
      ''      </content>'',
      ''    </entry>'']\<close>
  by (simp add: feed_entry_def mk_doc_def ex_isoformat ex_escape)

lemma ex_feed_head:
  \<open>feed_head (feed_credentials ex_app ex_clock) =
     [''<?xml version="1.0" encoding="utf-8"?>'',
      ''  <feed xmlns="http://www.w3.org/2005/Atom" >'',
      ''    <title>Blog Feed</title>'',
      ''    <updated>2024-03-09T07:05:01Z</updated>'',
      ''    <id>http://example.com/blog/</id>'',
      ''    '',
      ''    <link href="http://example.com/blog/feed/atom.xml" rel="self" />'',
      ''    <link href="http://example.com/blog/" rel="alternate" />'',
      ''    '',
      ''    <generator>Holocron</generator>'']\<close>
  by (simp add: feed_head_def feed_credentials_def ex_conf_fields ex_normalize_url ex_isoformat)

lemma ex_feed_template:
  "feed_template [post_b, post_a] (feed_credentials ex_app ex_clock) = join_lines ex_feed_lines"
  by (simp add: feed_template_def ex_feed_head post_a_def post_b_def ex_feed_entry
      ex_feed_lines_def newline_def)

lemma take_eq_take_iff:
  "(take i xs = take j xs) = (min i (length xs) = min j (length xs))"
proof
  assume "take i xs = take j xs"
  then have "length (take i xs) = length (take j xs)"
    by simp
  then show "min i (length xs) = min j (length xs)"
    by (simp add: min.commute)
next
  assume m: "min i (length xs) = min j (length xs)"
  have "take i xs = take (min i (length xs)) xs"
    by (simp add: min_def)
  also have "\<dots> = take (min j (length xs)) xs"
    by (simp only: m)
  also have "\<dots> = take j xs"
    by (simp add: min_def)
  finally show "take i xs = take j xs" .
qed

lemma ex_neg_credentials: "feed_credentials ex_app_neg now = feed_credentials ex_app now"
  by (simp add: feed_credentials_def ex_neg_conf_fields ex_conf_fields)

lemma ex_feed_mkdir:
  "mkdir (dirname (join (paths_output (conf ex_app)) (feed_save_as (conf ex_app)))) ex_fs =
     Inr ex_fs1"
  by (simp add: ex_conf_fields ex_feed_path ex_mkdir_feed)

lemma ex_feed_open:
  "open_w (join (paths_output (conf ex_app)) (feed_save_as (conf ex_app))) ex_fs1 =
     Inr (ex_feed_node, ex_fs1\<lparr>files := [ex_feed_node \<mapsto> []]\<rparr>)"
  by (simp add: ex_conf_fields ex_feed_path ex_open_feed)

lemma ex_neg_feed_mkdir:
  "mkdir (dirname (join (paths_output (conf ex_app_neg)) (feed_save_as (conf ex_app_neg)))) ex_fs =
     Inr ex_fs1"
  by (simp add: ex_neg_conf_fields ex_feed_path ex_mkdir_feed)

lemma ex_neg_feed_open:
  "open_w (join (paths_output (conf ex_app_neg)) (feed_save_as (conf ex_app_neg))) ex_fs1 =
     Inr (ex_feed_node, ex_fs1\<lparr>files := [ex_feed_node \<mapsto> []]\<rparr>)"
  by (simp add: ex_neg_conf_fields ex_feed_path ex_open_feed)

lemma files_fwrite: "files (fwrite f s fs) f = Some s"
  by (simp add: fwrite_def)

section \<open>Properties of the credentials and of the template\<close>

lemma isoformat_naive_seconds:
  "microsecond d = 0 \<Longrightarrow> utcoffset d = None \<Longrightarrow>
   isoformat d =
     zfill 4 (year d) @ ''-'' @ zfill 2 (month d) @ ''-'' @ zfill 2 (day d) @ ''T'' @
     zfill 2 (hour d) @ '':'' @ zfill 2 (minute d) @ '':'' @ zfill 2 (second d)"
  by (simp add: isoformat_def)

lemma date_feed_credentials:
  "date (feed_credentials a now) = (utcnow now)\<lparr>microsecond := 0\<rparr>"
  by (simp add: feed_credentials_def replace_microsecond_def)

lemma isoformat_date_feed_credentials:
  "isoformat (date (feed_credentials a now)) =
     zfill 4 (year now) @ ''-'' @ zfill 2 (month now) @ ''-'' @ zfill 2 (day now) @ ''T'' @
     zfill 2 (hour now) @ '':'' @ zfill 2 (minute now) @ '':'' @ zfill 2 (second now)"
  by (simp add: date_feed_credentials isoformat_naive_seconds utcnow_def)

lemma feed_template_top:
  \<open>feed_template documents c =
     ''<?xml version="1.0" encoding="utf-8"?>'' @ newline @
     ''  <feed xmlns="http://www.w3.org/2005/Atom" >'' @ newline @
     ''    <title>'' @ cred_sitename c @ '' Feed</title>'' @ newline @
     ''    <updated>'' @ (isoformat (date c) @ ''Z'') @ ''</updated>'' @ newline @
     ''    <id>'' @ siteurl_alt c @ ''</id>'' @ newline @
     ''    '' @ newline @
     ''    <link href="'' @ siteurl_self c @ ''" rel="self" />'' @ newline @
     ''    <link href="'' @ siteurl_alt c @ ''" rel="alternate" />'' @ newline @
     ''    '' @ newline @
     ''    <generator>Holocron</generator>'' @ newline @ ''    '' @
     concat (map (\<lambda>doc. newline @ join_lines (feed_entry doc) @ newline @ ''    '') documents) @
     newline @ ''  </feed>''\<close>
  by (simp add: feed_template_def feed_head_def)

lemma squeeze_sep_head: "\<exists>ys. squeeze_sep (b # cs) = b # ys"
  by (induction cs arbitrary: b) auto

lemma not_double_sep_squeeze: "\<not> double_sep (squeeze_sep s)"
proof (induction s rule: squeeze_sep.induct)
  case (1 a b cs)
  obtain ys where ys: "squeeze_sep (b # cs) = b # ys"
    using squeeze_sep_head by blast
  show ?case
  proof (cases "a = CHR ''/'' \<and> b = CHR ''/''")
    case True
    with 1 show ?thesis by simp
  next
    case False
    with 1 have "\<not> double_sep (b # ys)"
      by (simp add: ys)
    with False show ?thesis
      by (auto simp: ys)
  qed
qed simp_all

lemma squeeze_sep_id: "\<not> double_sep s \<Longrightarrow> squeeze_sep s = s"
  by (induction s rule: squeeze_sep.induct) auto

lemma startswith_sep_squeeze: "startswith_sep (squeeze_sep s) = startswith_sep s"
proof (cases s)
  case Nil
  then show ?thesis by simp
next
  case (Cons b cs)
  obtain ys where "squeeze_sep (b # cs) = b # ys"
    using squeeze_sep_head by blast
  with Cons show ?thesis
    by (simp add: startswith_sep_def)
qed

lemma not_startswith_sep_dropWhile: "\<not> startswith_sep (dropWhile (\<lambda>c. c = CHR ''/'') s)"
  by (induction s) (simp_all add: startswith_sep_def)

lemma dropWhile_sep_id: "\<not> startswith_sep s \<Longrightarrow> dropWhile (\<lambda>c. c = CHR ''/'') s = s"
  by (cases s) (simp_all add: startswith_sep_def)

lemma url_scheme_cases: "url_scheme u = ''http://'' \<or> url_scheme u = ''https://''"
  by (simp add: url_scheme_def)

lemma url_scheme_rest_normalized:
  "url_scheme (url_scheme u @ r) = url_scheme u \<and> url_rest (url_scheme u @ r) = r"
  by (simp add: url_scheme_def url_rest_def)

lemma normalize_url_idem: "normalize_url (normalize_url u) = normalize_url u"
proof -
  define r where "r = squeeze_sep (dropWhile (\<lambda>c. c = CHR ''/'') (url_rest u))"
  have n: "normalize_url u = url_scheme u @ r"
    by (simp add: normalize_url_def r_def)
  have s: "\<not> startswith_sep r"
    by (simp add: r_def startswith_sep_squeeze not_startswith_sep_dropWhile)
  have d: "\<not> double_sep r"
    by (simp add: r_def not_double_sep_squeeze)
  have "normalize_url (url_scheme u @ r) =
      url_scheme u @ squeeze_sep (dropWhile (\<lambda>c. c = CHR ''/'') r)"
    by (simp add: normalize_url_def url_scheme_rest_normalized)
  also have "\<dots> = url_scheme u @ r"
    using s d by (simp add: dropWhile_sep_id squeeze_sep_id)
  finally show ?thesis
    by (simp add: n)
qed

section \<open>Properties of \<open>generate\<close>\<close>

lemma extract_posts_filter:
  "extract_posts (filter (\<lambda>doc. isinstance_Post doc) documents) = extract_posts documents"
  by (simp add: extract_posts_def)

lemma extract_posts_insert:
  "\<not> isinstance_Post d \<Longrightarrow> extract_posts (xs @ d # ys) = extract_posts (xs @ ys)"
  by (simp add: extract_posts_def)

lemma set_extract_posts:
  "set (extract_posts documents) = {d \<in> set documents. isinstance_Post d}"
  by (simp add: extract_posts_def sorted_py_set)

lemma list_all_extract_posts: "list_all isinstance_Post (extract_posts documents)"
  by (simp add: list_all_iff set_extract_posts)

lemma list_all_subset: "list_all P ys \<Longrightarrow> set xs \<subseteq> set ys \<Longrightarrow> list_all P xs"
  by (auto simp: list_all_iff)

lemma conf_posts_only: "conf (posts_only a) = conf a"
  by (simp add: posts_only_def)

lemma template_posts_only:
  "list_all isinstance_Post posts \<Longrightarrow> template (posts_only a) posts name = template a posts name"
  by (simp add: posts_only_def)

lemma index_posts_only:
  "list_all isinstance_Post posts \<Longrightarrow> index (posts_only a) posts fs = index a posts fs"
  by (simp add: index_def conf_posts_only template_posts_only Let_def
      split: sum.split prod.split)

lemma tags_pages_posts_only:
  "(\<And>tag. list_all isinstance_Post (getitem d tag)) \<Longrightarrow>
   tags_pages (posts_only a) d ts fs = tags_pages a d ts fs"
proof (induction ts arbitrary: fs)
  case Nil
  show ?case by simp
next
  case (Cons t ts)
  have g: "template (posts_only a) (getitem d t) (sitename (conf a)) =
      template a (getitem d t) (sitename (conf a))"
    by (rule template_posts_only) (rule Cons.prems)
  have r: "\<And>fs'. tags_pages (posts_only a) d ts fs' = tags_pages a d ts fs'"
    by (rule Cons.IH) (rule Cons.prems)
  show ?case
    by (simp add: conf_posts_only g r Let_def split: sum.split prod.split)
qed

lemma tags_blog_posts_only:
  "list_all isinstance_Post posts \<Longrightarrow> tags_blog (posts_only a) posts fs = tags_blog a posts fs"
  unfolding tags_blog_def
  by (rule tags_pages_posts_only) (rule list_all_subset [OF _ set_getitem_tags_dict])

lemma feed_posts_only: "feed (posts_only a) now posts fs = feed a now posts fs"
  by (simp add: feed_def feed_credentials_def feed_documents_def conf_posts_only Let_def
      split: sum.split prod.split)

lemma generate_posts_only: "generate (posts_only a) now documents fs = generate a now documents fs"
  by (simp add: generate_def index_posts_only tags_blog_posts_only feed_posts_only
      list_all_extract_posts Let_def split: prod.split option.split)

lemma generate_filter:
  "generate a now (filter (\<lambda>doc. isinstance_Post doc) documents) fs = generate a now documents fs"
  by (simp add: generate_def extract_posts_filter)

lemma generate_insert:
  "\<not> isinstance_Post d \<Longrightarrow> generate a now (xs @ d # ys) fs = generate a now (xs @ ys) fs"
  by (simp add: generate_def extract_posts_insert)

lemma ex_posts_fields:
  "post_tags post_b = [''go'', ''py'']" "post_tags post_a = []" "post_tags post_c = [''py'']"
  "title post_b = ''b''" "title post_a = ''a''" "title post_c = ''c''"
  "created post_b = 3" "created post_a = 2" "created post_c = 1"
  "isinstance_Post post_a" "isinstance_Post post_b" "isinstance_Post post_c"
  by (simp_all add: post_tags_def post_a_def post_b_def post_c_def mk_doc_def isinstance_Post_def)

lemma ex_filter: "filter (\<lambda>doc. isinstance_Post doc) ex_documents = [post_a, post_b, post_c]"
  by (simp add: ex_documents_def ex_posts_fields) (simp add: isinstance_Post_def mk_doc_def)

lemma ex_extract_posts: "extract_posts [post_a, post_b, post_c] = [post_b, post_a, post_c]"
  by (simp add: extract_posts_def sorted_py_def ex_posts_fields)

lemma ex_tags_dict:
  "tags_dict [post_b, post_a, post_c] = [(''go'', [post_b]), (''py'', [post_b, post_c])]"
  by (simp add: tags_dict_def ex_posts_fields)

lemma ex_template: "template ex_app posts name = Inr (name @ '':'' @ concat (map title posts))"
  by (simp add: ex_app_def)

lemma ex_paths:
  "join ''_build'' ''index.html'' = ''_build/index.html''"
  "join (join ''_build'' ''tags'') ''go'' = ''_build/tags/go''"
  "join (join ''_build'' ''tags'') ''py'' = ''_build/tags/py''"
  "join ''_build/tags/go'' ''index.html'' = ''_build/tags/go/index.html''"
  "join ''_build/tags/py'' ''index.html'' = ''_build/tags/py/index.html''"
  "components ''_build/index.html'' = [''_build'', ''index.html'']"
  "components ''_build/tags/go'' = [''_build'', ''tags'', ''go'']"
  "components ''_build/tags/py'' = [''_build'', ''tags'', ''py'']"
  "components ''_build/tags/go/index.html'' = [''_build'', ''tags'', ''go'', ''index.html'']"
  "components ''_build/tags/py/index.html'' = [''_build'', ''tags'', ''py'', ''index.html'']"
  by (simp_all add: join_def startswith_sep_def endswith_sep_def components_def)

lemma ex_generate:
  "fst (generate ex_app ex_clock [post_a, post_b, post_c] ex_fs) = None"
  "files (snd (generate ex_app ex_clock [post_a, post_b, post_c] ex_fs))
     [''site'', ''_build'', ''index.html''] = Some ''Blog:bac''"
  "files (snd (generate ex_app ex_clock [post_a, post_b, post_c] ex_fs))
     [''site'', ''_build'', ''tags'', ''go'', ''index.html''] = Some ''Blog:b''"
  "files (snd (generate ex_app ex_clock [post_a, post_b, post_c] ex_fs))
     [''site'', ''_build'', ''tags'', ''py'', ''index.html''] = Some ''Blog:bc''"
  "files (snd (generate ex_app ex_clock [post_a, post_b, post_c] ex_fs)) ex_feed_node =
     Some (join_lines ex_feed_lines)"
  by (simp_all add: generate_def ex_extract_posts index_def tags_blog_def ex_tags_dict feed_def
      feed_documents_def slice_to_def ex_feed_template ex_template ex_conf_fields ex_paths
      ex_feed_path ex_components mkdir_def open_w_def start_def startswith_sep_def
      endswith_sep_def is_dir_def fwrite_def getitem_def ex_posts_fields ex_fs_def
      ex_feed_node_def Let_def)

lemma feed_success:
  "fst (feed a now posts fs) = None \<Longrightarrow>
   \<exists>f fs1 fs2. open_w (join (paths_output (conf a)) (feed_save_as (conf a))) fs1 = Inr (f, fs2) \<and>
     files (snd (feed a now posts fs)) f =
       Some (feed_template (feed_documents a posts) (feed_credentials a now))"
proof (cases "mkdir (dirname (join (paths_output (conf a)) (feed_save_as (conf a)))) fs")
  case (Inl err)
  assume "fst (feed a now posts fs) = None"
  with Inl show ?thesis
    by (simp add: feed_error)
next
  case (Inr fs1)
  assume n: "fst (feed a now posts fs) = None"
  show ?thesis
  proof (cases "open_w (join (paths_output (conf a)) (feed_save_as (conf a))) fs1")
    case (Inl err)
    with Inr n show ?thesis
      by (simp add: feed_error)
  next
    case r: (Inr r)
    obtain f fs2 where p: "r = (f, fs2)"
      by (cases r)
    have o: "open_w (join (paths_output (conf a)) (feed_save_as (conf a))) fs1 = Inr (f, fs2)"
      using r p by simp
    have "feed a now posts fs =
        (None, fwrite f (feed_template (feed_documents a posts) (feed_credentials a now)) fs2)"
      by (rule feed_written [OF Inr o])
    then have "files (snd (feed a now posts fs)) f =
        Some (feed_template (feed_documents a posts) (feed_credentials a now))"
      by (simp add: files_fwrite)
    with o show ?thesis
      by (intro exI conjI)
  qed
qed

lemma generate_success:
  "fst (generate a now documents fs) = None \<Longrightarrow>
   \<exists>fs2. generate a now documents fs = feed a now (extract_posts documents) fs2"
  by (auto simp: generate_def Let_def split: prod.splits option.splits)

section \<open>Properties of the filter \<open>e\<close> and of the entries\<close>



lemma escape_char_plain: "\<not> special c \<Longrightarrow> escape_char c = [c]"
  by (simp add: escape_char_def special_def)



lemma escape_plain: "\<forall>c \<in> set s. \<not> special c \<Longrightarrow> escape s = s"
  by (induction s) (simp_all add: escape_def escape_char_plain)



section \<open>Properties of the paths and of \<open>index\<close>\<close>

lemma split_sep_not_Nil: "split_sep s \<noteq> []"
  by (induction s) (auto split: list.splits)

lemma split_sep_append: "split_sep (xs @ CHR ''/'' # ys) = split_sep xs @ split_sep ys"
proof (induction xs)
  case Nil
  show ?case by simp
next
  case (Cons c xs)
  obtain w ws where s: "split_sep xs = w # ws"
    using split_sep_not_Nil [of xs] by (cases "split_sep xs") auto
  show ?case
    using Cons s by simp
qed

lemma split_sep_plain: "CHR ''/'' \<notin> set t \<Longrightarrow> split_sep t = [t]"
  by (induction t) auto

lemma components_append:
  "components (xs @ CHR ''/'' # ys) = components xs @ components ys"
  by (simp add: components_def split_sep_append)

lemma components_plain: "CHR ''/'' \<notin> set t \<Longrightarrow> t \<noteq> [] \<Longrightarrow> components t = [t]"
  by (simp add: components_def split_sep_plain)

lemma components_Nil: "components [] = []"
  by (simp add: components_def)

lemma components_snoc_sep: "components (xs @ [CHR ''/'']) = components xs"
  using components_append [of xs "[]"] by (simp add: components_Nil)

lemma components_replicate: "components (xs @ replicate n (CHR ''/'')) = components xs"
proof (induction n arbitrary: xs)
  case 0
  show ?case by simp
next
  case (Suc n)
  have "components (xs @ replicate (Suc n) (CHR ''/'')) =
      components ((xs @ [CHR ''/'']) @ replicate n (CHR ''/''))"
    by (simp add: replicate_app_Cons_same)
  also have "\<dots> = components (xs @ [CHR ''/''])"
    by (rule Suc.IH)
  finally show ?case
    by (simp add: components_snoc_sep)
qed

lemma rev_all_same: "\<forall>x \<in> set xs. x = c \<Longrightarrow> rev xs = replicate (length xs) c"
  by (induction xs) (simp_all add: replicate_append_same)

lemma rstrip_sep_decomp: "\<exists>n. p = rstrip_sep p @ replicate n (CHR ''/'')"
proof -
  have "rev p = takeWhile (\<lambda>c. c = CHR ''/'') (rev p) @ dropWhile (\<lambda>c. c = CHR ''/'') (rev p)"
    by simp
  then have "p = rstrip_sep p @ rev (takeWhile (\<lambda>c. c = CHR ''/'') (rev p))"
    unfolding rstrip_sep_def by (metis rev_append rev_rev_ident)
  moreover have "rev (takeWhile (\<lambda>c. c = CHR ''/'') (rev p)) =
      replicate (length (takeWhile (\<lambda>c. c = CHR ''/'') (rev p))) (CHR ''/'')"
    by (rule rev_all_same) (auto dest: set_takeWhileD)
  ultimately show ?thesis
    by metis
qed

lemma components_rstrip_sep: "components (rstrip_sep p) = components p"
proof -
  obtain n where "p = rstrip_sep p @ replicate n (CHR ''/'')"
    using rstrip_sep_decomp by blast
  then have "components p = components (rstrip_sep p @ replicate n (CHR ''/''))"
    by simp
  then show ?thesis
    by (simp only: components_replicate)
qed

lemma path_decomp:
  "\<exists>head tail. p = head @ tail \<and> CHR ''/'' \<notin> set tail \<and>
     (head = [] \<or> (\<exists>h. head = h @ [CHR ''/''])) \<and>
     dirname p = (if head \<noteq> [] \<and> head \<noteq> replicate (length head) (CHR ''/'')
                  then rstrip_sep head else head)"
proof -
  define head where "head = rev (dropWhile (\<lambda>c. c \<noteq> CHR ''/'') (rev p))"
  define tail where "tail = rev (takeWhile (\<lambda>c. c \<noteq> CHR ''/'') (rev p))"
  have "rev p = takeWhile (\<lambda>c. c \<noteq> CHR ''/'') (rev p) @ dropWhile (\<lambda>c. c \<noteq> CHR ''/'') (rev p)"
    by simp
  then have "rev (rev p) = head @ tail"
    unfolding head_def tail_def by (metis rev_append)
  then have p: "p = head @ tail"
    by simp
  have t: "CHR ''/'' \<notin> set tail"
    unfolding tail_def by (auto dest: set_takeWhileD)
  have h: "head = [] \<or> (\<exists>h. head = h @ [CHR ''/''])"
  proof (cases "dropWhile (\<lambda>c. c \<noteq> CHR ''/'') (rev p)")
    case Nil
    then show ?thesis by (simp add: head_def)
  next
    case (Cons c cs)
    then have "\<not> (hd (dropWhile (\<lambda>c. c \<noteq> CHR ''/'') (rev p)) \<noteq> CHR ''/'')"
      using hd_dropWhile [of "\<lambda>c. c \<noteq> CHR ''/''" "rev p"] by simp
    with Cons have "c = CHR ''/''"
      by simp
    with Cons show ?thesis
      by (simp add: head_def)
  qed
  have d: "dirname p = (if head \<noteq> [] \<and> head \<noteq> replicate (length head) (CHR ''/'')
      then rstrip_sep head else head)"
    by (simp add: dirname_def head_def Let_def)
  from p t h d show ?thesis
    by blast
qed

lemma startswith_sep_append: "xs \<noteq> [] \<Longrightarrow> startswith_sep (xs @ ys) = startswith_sep xs"
  by (cases xs) (simp_all add: startswith_sep_def)

lemma startswith_sep_plain: "CHR ''/'' \<notin> set t \<Longrightarrow> \<not> startswith_sep t"
  by (cases t) (auto simp: startswith_sep_def)

lemma dirname_parent:
  assumes "p \<noteq> []" and "\<not> endswith_sep p"
  shows "components (dirname p) = butlast (components p)"
    and "startswith_sep (dirname p) = startswith_sep p"
proof -
  obtain head tail where p: "p = head @ tail" and t: "CHR ''/'' \<notin> set tail"
    and h: "head = [] \<or> (\<exists>h. head = h @ [CHR ''/''])"
    and d: "dirname p = (if head \<noteq> [] \<and> head \<noteq> replicate (length head) (CHR ''/'')
      then rstrip_sep head else head)"
    using path_decomp [of p] by blast
  have tail: "tail \<noteq> []"
  proof
    assume "tail = []"
    with p h assms show False
      by (auto simp: endswith_sep_def)
  qed
  have c: "components (dirname p) = components head"
    by (simp add: d components_rstrip_sep)
  show "components (dirname p) = butlast (components p)"
  proof (cases "head = []")
    case True
    with p t tail c show ?thesis
      by (simp add: components_plain components_Nil)
  next
    case False
    with h obtain h' where h': "head = h' @ [CHR ''/'']"
      by blast
    have "components p = components h' @ [tail]"
      using p h' t tail by (simp add: components_append components_plain)
    moreover have "components head = components h'"
      by (simp add: h' components_snoc_sep)
    ultimately show ?thesis
      by (simp add: c)
  qed
  show "startswith_sep (dirname p) = startswith_sep p"
  proof (cases "head = []")
    case True
    with p t d show ?thesis
      by (simp add: startswith_sep_plain)
  next
    case False
    then have sp: "startswith_sep p = startswith_sep head"
      by (simp add: p startswith_sep_append)
    show ?thesis
    proof (cases "head \<noteq> replicate (length head) (CHR ''/'')")
      case False
      with d sp show ?thesis by simp
    next
      case True
      obtain n where n: "head = rstrip_sep head @ replicate n (CHR ''/'')"
        using rstrip_sep_decomp by blast
      have "rstrip_sep head \<noteq> []"
      proof
        assume "rstrip_sep head = []"
        with n have "head = replicate n (CHR ''/'')"
          by simp
        then have "head = replicate (length head) (CHR ''/'')"
          by (metis length_replicate)
        with True show False by simp
      qed
      then have "startswith_sep (rstrip_sep head @ replicate n (CHR ''/'')) =
          startswith_sep (rstrip_sep head)"
        by (rule startswith_sep_append)
      with n have "startswith_sep head = startswith_sep (rstrip_sep head)"
        by simp
      with d sp True \<open>head \<noteq> []\<close> show ?thesis
        by simp
    qed
  qed
qed

lemma walk_error: "walk fs cur cs = Inl err \<Longrightarrow> err \<noteq> RenderError"
  by (induction fs cur cs rule: walk.induct) (auto split: if_splits)

lemma open_w_error: "open_w p fs = Inl err \<Longrightarrow> err \<noteq> RenderError"
  by (auto simp: open_w_def dest: walk_error split: if_splits sum.splits)

lemma open_w_parent_missing:
  assumes "\<not> dir_exists fs (dirname p)"
  shows "\<exists>err. open_w p fs = Inl err"
proof (cases "p = [] \<or> endswith_sep p \<or> components p = []")
  case True
  then show ?thesis
    by (auto simp: open_w_def split: sum.splits)
next
  case False
  then have c: "components (dirname p) = butlast (components p)"
    and s: "startswith_sep (dirname p) = startswith_sep p"
    by (simp_all add: dirname_parent)
  from assms obtain err where "walk fs (start fs p) (butlast (components p)) = Inl err"
    by (auto simp: dir_exists_def c s start_def split: sum.splits)
  with False show ?thesis
    by (simp add: open_w_def)
qed

lemma index_fails_without_parent:
  assumes "\<not> dir_exists fs (dirname (join (paths_output (conf a)) (index_save_as (conf a))))"
  shows "\<exists>err. index a posts fs = (Some err, fs) \<and> err \<noteq> RenderError"
proof -
  obtain err where e: "open_w (join (paths_output (conf a)) (index_save_as (conf a))) fs = Inl err"
    using open_w_parent_missing [OF assms] by blast
  then have "index a posts fs = (Some err, fs)"
    by (simp add: index_def)
  moreover have "err \<noteq> RenderError"
    using e by (rule open_w_error)
  ultimately show ?thesis
    by blast
qed

lemma open_w_dirs: "open_w p fs = Inr (f, fs1) \<Longrightarrow> dirs fs1 = dirs fs \<and> cwd fs1 = cwd fs"
  by (auto simp: open_w_def split: if_splits sum.splits)

lemma index_dirs: "dirs (snd (index a posts fs)) = dirs fs \<and> cwd (snd (index a posts fs)) = cwd fs"
  by (auto simp: index_def Let_def fwrite_def dest: open_w_dirs split: sum.splits prod.splits)

lemma makedirs_mono:
  "makedirs fs cur cs = Inr fs1 \<Longrightarrow> dirs fs \<subseteq> dirs fs1 \<and> files fs1 = files fs \<and> cwd fs1 = cwd fs"
  by (induction fs cur cs rule: makedirs.induct) (auto split: if_splits)

lemma makedirs_walk: "makedirs fs cur cs = Inr fs1 \<Longrightarrow> \<exists>d. walk fs1 cur cs = Inr d"
proof (induction fs cur cs rule: makedirs.induct)
  case (1 fs cur)
  show ?case by simp
next
  case (2 fs cur c cs)
  show ?case
  proof (cases "c = ''.'' \<or> c = ''..''")
    case True
    with 2 show ?thesis
      by (auto split: if_splits)
  next
    case False
    with "2.prems" have f: "cur @ [c] \<notin> dom (files fs)"
      and m: "makedirs (fs\<lparr>dirs := insert (cur @ [c]) (dirs fs)\<rparr>) (cur @ [c]) cs = Inr fs1"
      by (auto split: if_splits)
    from False f m have "\<exists>d. walk fs1 (cur @ [c]) cs = Inr d"
      by (intro "2.IH") auto
    moreover have "cur @ [c] \<in> dirs fs1"
      using makedirs_mono [OF m] by auto
    ultimately show ?thesis
      using False by (simp add: is_dir_def)
  qed
qed

lemma mkdir_exists:
  assumes "mkdir p fs = Inr fs1"
  shows "dir_exists fs1 p" and "dirs fs \<subseteq> dirs fs1"
proof -
  from assms have m: "makedirs fs (start fs p) (components p) = Inr fs1"
    by (simp add: mkdir_def)
  have s: "start fs1 p = start fs p"
    using makedirs_mono [OF m] by (simp add: start_def)
  obtain d where "walk fs1 (start fs p) (components p) = Inr d"
    using makedirs_walk [OF m] by blast
  then show "dir_exists fs1 p"
    by (simp add: dir_exists_def s)
  show "dirs fs \<subseteq> dirs fs1"
    using makedirs_mono [OF m] by simp
qed

lemma walk_mono: "walk fs cur cs = Inr d \<Longrightarrow> dirs fs \<subseteq> dirs fs' \<Longrightarrow> walk fs' cur cs = Inr d"
  by (induction fs cur cs rule: walk.induct) (auto simp: is_dir_def split: if_splits)

lemma dir_exists_mono:
  assumes "dir_exists fs p" and "dirs fs \<subseteq> dirs fs'" and "cwd fs' = cwd fs"
  shows "dir_exists fs' p"
proof -
  have s: "start fs' p = start fs p"
    using assms(3) by (simp add: start_def)
  from assms(1) obtain d where "walk fs (start fs p) (components p) = Inr d"
    by (auto simp: dir_exists_def split: sum.splits)
  then have "walk fs' (start fs p) (components p) = Inr d"
    using assms(2) by (rule walk_mono)
  then show ?thesis
    by (simp add: dir_exists_def s)
qed

lemma fwrite_dirs: "dirs (fwrite f s fs) = dirs fs" "cwd (fwrite f s fs) = cwd fs"
  by (simp_all add: fwrite_def)

lemma mkdir_cwd: "mkdir p fs = Inr fs1 \<Longrightarrow> cwd fs1 = cwd fs"
  using makedirs_mono [of fs "start fs p" "components p" fs1] by (simp add: mkdir_def)

lemma feed_creates:
  assumes "fst (feed a now posts fs) = None"
  shows "dir_exists (snd (feed a now posts fs))
      (dirname (join (paths_output (conf a)) (feed_save_as (conf a))))"
proof -
  from assms obtain fs1 where
    m: "mkdir (dirname (join (paths_output (conf a)) (feed_save_as (conf a)))) fs = Inr fs1"
    by (auto simp: feed_error split: sum.splits)
  with assms obtain f fs2 where
    o: "open_w (join (paths_output (conf a)) (feed_save_as (conf a))) fs1 = Inr (f, fs2)"
    by (auto simp: feed_error split: sum.splits)
  have r: "feed a now posts fs =
      (None, fwrite f (feed_template (feed_documents a posts) (feed_credentials a now)) fs2)"
    by (rule feed_written [OF m o])
  have "dir_exists fs1 (dirname (join (paths_output (conf a)) (feed_save_as (conf a))))"
    by (rule mkdir_exists [OF m])
  then have "dir_exists
      (fwrite f (feed_template (feed_documents a posts) (feed_credentials a now)) fs2)
      (dirname (join (paths_output (conf a)) (feed_save_as (conf a))))"
    by (rule dir_exists_mono) (simp_all add: fwrite_dirs open_w_dirs [OF o])
  then show ?thesis
    by (simp add: r)
qed

lemma tags_pages_mono:
  "dirs fs \<subseteq> dirs (snd (tags_pages a d ts fs)) \<and> cwd (snd (tags_pages a d ts fs)) = cwd fs"
proof (induction ts arbitrary: fs)
  case Nil
  show ?case by simp
next
  case (Cons t ts)
  show ?case
  proof (cases "mkdir (join (join (paths_output (conf a)) (tags_output (conf a))) t) fs")
    case (Inl err)
    then show ?thesis by (simp add: Let_def)
  next
    case m: (Inr fs1)
    note g = mkdir_exists(2) [OF m] mkdir_cwd [OF m]
    show ?thesis
    proof (cases "open_w (join (join (join (paths_output (conf a)) (tags_output (conf a))) t)
        (tags_save_as (conf a))) fs1")
      case (Inl err)
      with m g show ?thesis by (simp add: Let_def)
    next
      case (Inr r)
      obtain f fs2 where r: "r = (f, fs2)"
        by (cases r)
      note o = open_w_dirs [OF Inr [unfolded r]]
      show ?thesis
      proof (cases "template a (getitem d t) (sitename (conf a))")
        case (Inl err)
        with m g Inr r o show ?thesis by (simp add: Let_def)
      next
        case p: (Inr page)
        have "dirs (fwrite f page fs2) \<subseteq> dirs (snd (tags_pages a d ts (fwrite f page fs2))) \<and>
            cwd (snd (tags_pages a d ts (fwrite f page fs2))) = cwd (fwrite f page fs2)"
          by (rule Cons.IH)
        with m g Inr r o p show ?thesis
          by (auto simp: Let_def fwrite_dirs)
      qed
    qed
  qed
qed

lemma tags_pages_creates:
  "fst (tags_pages a d ts fs) = None \<Longrightarrow> tag \<in> set ts \<Longrightarrow>
   dir_exists (snd (tags_pages a d ts fs))
     (join (join (paths_output (conf a)) (tags_output (conf a))) tag)"
proof (induction ts arbitrary: fs)
  case Nil
  then show ?case by simp
next
  case (Cons t ts)
  from Cons.prems(1) obtain fs1 where
    m: "mkdir (join (join (paths_output (conf a)) (tags_output (conf a))) t) fs = Inr fs1"
    by (auto simp: Let_def split: sum.splits)
  with Cons.prems(1) obtain f fs2 where
    o: "open_w (join (join (join (paths_output (conf a)) (tags_output (conf a))) t)
        (tags_save_as (conf a))) fs1 = Inr (f, fs2)"
    by (auto simp: Let_def split: sum.splits)
  with m Cons.prems(1) obtain page where
    p: "template a (getitem d t) (sitename (conf a)) = Inr page"
    by (auto simp: Let_def split: sum.splits)
  have r: "tags_pages a d (t # ts) fs = tags_pages a d ts (fwrite f page fs2)"
    by (simp add: m o p Let_def)
  show ?case
  proof (cases "tag = t")
    case True
    have "dir_exists fs1 (join (join (paths_output (conf a)) (tags_output (conf a))) t)"
      by (rule mkdir_exists [OF m])
    then have "dir_exists (snd (tags_pages a d ts (fwrite f page fs2)))
        (join (join (paths_output (conf a)) (tags_output (conf a))) t)"
    proof (rule dir_exists_mono)
      show "dirs fs1 \<subseteq> dirs (snd (tags_pages a d ts (fwrite f page fs2)))"
        using tags_pages_mono [of "fwrite f page fs2" a d ts] open_w_dirs [OF o]
        by (simp add: fwrite_dirs)
      show "cwd (snd (tags_pages a d ts (fwrite f page fs2))) = cwd fs1"
        using tags_pages_mono [of "fwrite f page fs2" a d ts] open_w_dirs [OF o]
        by (simp add: fwrite_dirs)
    qed
    with True show ?thesis
      by (simp only: r)
  next
    case False
    with Cons.prems(2) have "tag \<in> set ts"
      by simp
    moreover from Cons.prems(1) have "fst (tags_pages a d ts (fwrite f page fs2)) = None"
      by (simp only: r)
    ultimately have "dir_exists (snd (tags_pages a d ts (fwrite f page fs2)))
        (join (join (paths_output (conf a)) (tags_output (conf a))) tag)"
      by (intro Cons.IH)
    then show ?thesis
      by (simp only: r)
  qed
qed

section \<open>The clock in \<open>generate\<close>\<close>

lemma feed_clock:
  "feed a n1 posts fs = feed a n2 posts fs \<or>
   (\<exists>f fs'.
      feed a n1 posts fs =
        (None, fwrite f (feed_template (feed_documents a posts) (feed_credentials a n1)) fs') \<and>
      feed a n2 posts fs =
        (None, fwrite f (feed_template (feed_documents a posts) (feed_credentials a n2)) fs'))"
proof (cases "mkdir (dirname (join (paths_output (conf a)) (feed_save_as (conf a)))) fs")
  case (Inl err)
  then show ?thesis
    by (simp add: feed_def Let_def)
next
  case m: (Inr fs1)
  show ?thesis
  proof (cases "open_w (join (paths_output (conf a)) (feed_save_as (conf a))) fs1")
    case (Inl err)
    with m show ?thesis
      by (simp add: feed_def Let_def)
  next
    case (Inr r)
    obtain f fs2 where "r = (f, fs2)"
      by (cases r)
    with Inr have o: "open_w (join (paths_output (conf a)) (feed_save_as (conf a))) fs1 = Inr (f, fs2)"
      by simp
    have "feed a n1 posts fs =
        (None, fwrite f (feed_template (feed_documents a posts) (feed_credentials a n1)) fs2)"
      by (rule feed_written [OF m o])
    moreover have "feed a n2 posts fs =
        (None, fwrite f (feed_template (feed_documents a posts) (feed_credentials a n2)) fs2)"
      by (rule feed_written [OF m o])
    ultimately show ?thesis
      by blast
  qed
qed

lemma generate_feed:
  "(\<exists>err fs'. \<forall>now. generate a now documents fs = (Some err, fs')) \<or>
   (\<exists>fs'. \<forall>now. generate a now documents fs = feed a now (extract_posts documents) fs')"
proof (cases "index a (extract_posts documents) fs")
  case i: (Pair e1 fs1)
  show ?thesis
  proof (cases e1)
    case (Some err)
    with i show ?thesis
      by (simp add: generate_def)
  next
    case None
    show ?thesis
    proof (cases "tags_blog a (extract_posts documents) fs1")
      case t: (Pair e2 fs2)
      show ?thesis
      proof (cases e2)
        case (Some err)
        with i None t show ?thesis
          by (simp add: generate_def)
      next
        case n2: None
        with i None t have "\<forall>now. generate a now documents fs =
            feed a now (extract_posts documents) fs2"
          by (simp add: generate_def)
        then show ?thesis
          by blast
      qed
    qed
  qed
qed

lemma generate_clock:
  "generate a n1 documents fs = generate a n2 documents fs \<or>
   (\<exists>f fs'.
      generate a n1 documents fs =
        (None, fwrite f (feed_template (feed_documents a (extract_posts documents))
                 (feed_credentials a n1)) fs') \<and>
      generate a n2 documents fs =
        (None, fwrite f (feed_template (feed_documents a (extract_posts documents))
                 (feed_credentials a n2)) fs'))"
  using generate_feed [of a documents fs]
proof (elim disjE exE)
  fix err fs'
  assume "\<forall>now. generate a now documents fs = (Some err, fs')"
  then show ?thesis
    by simp
next
  fix fs'
  assume g: "\<forall>now. generate a now documents fs = feed a now (extract_posts documents) fs'"
  show ?thesis
    using feed_clock [of a n1 "extract_posts documents" fs' n2]
    by (simp only: g [rule_format])
qed

lemma feed_credentials_seconds:
  assumes "year n1 = year n2" "month n1 = month n2" "day n1 = day n2" "hour n1 = hour n2"
    "minute n1 = minute n2" "second n1 = second n2"
  shows "feed_credentials a n1 = feed_credentials a n2"
  using assms by (simp add: feed_credentials_def utcnow_def replace_microsecond_def)

lemma feed_template_updated:
  \<open>feed_template documents c =
     (''<?xml version="1.0" encoding="utf-8"?>'' @ newline @
      ''  <feed xmlns="http://www.w3.org/2005/Atom" >'' @ newline @
      ''    <title>'' @ cred_sitename c @ '' Feed</title>'' @ newline @
      ''    <updated>'') @ (isoformat (date c) @ ''Z'') @
     (''</updated>'' @ newline @
      ''    <id>'' @ siteurl_alt c @ ''</id>'' @ newline @
      ''    '' @ newline @
      ''    <link href="'' @ siteurl_self c @ ''" rel="self" />'' @ newline @
      ''    <link href="'' @ siteurl_alt c @ ''" rel="alternate" />'' @ newline @
      ''    '' @ newline @
      ''    <generator>Holocron</generator>'' @ newline @ ''    '' @
      concat (map (\<lambda>doc. newline @ join_lines (feed_entry doc) @ newline @ ''    '') documents) @
      newline @ ''  </feed>'')\<close>
  by (simp add: feed_template_top)

lemma feed_template_clock:
  "\<exists>pre post.
     feed_template documents (feed_credentials a n1) =
       pre @ (isoformat (date (feed_credentials a n1)) @ ''Z'') @ post \<and>
     feed_template documents (feed_credentials a n2) =
       pre @ (isoformat (date (feed_credentials a n2)) @ ''Z'') @ post"
proof -
  have c: "cred_sitename (feed_credentials a n1) = cred_sitename (feed_credentials a n2)"
    "siteurl_alt (feed_credentials a n1) = siteurl_alt (feed_credentials a n2)"
    "siteurl_self (feed_credentials a n1) = siteurl_self (feed_credentials a n2)"
    by (simp_all add: feed_credentials_def)
  note u1 = feed_template_updated [of documents "feed_credentials a n1", unfolded c]
  note u2 = feed_template_updated [of documents "feed_credentials a n2"]
  show ?thesis
    by (intro exI conjI) (rule u1, rule u2)
qed

section \<open>A second run of \<open>generate\<close>\<close>

lemma extends_refl: "extends s s"
  by (simp add: extends_def)

lemma extends_trans: "extends t s \<Longrightarrow> extends s r \<Longrightarrow> extends t r"
  unfolding extends_def by (elim conjE, intro conjI) (simp, blast, blast)

lemma open_w_Inr:
  assumes "open_w p s = Inr (f, s1)"
  shows "\<exists>d. walk s (start s p) (butlast (components p)) = Inr d \<and>
      f = d @ [last (components p)] \<and> f \<notin> dirs s \<and> s1 = s\<lparr>files := (files s)(f \<mapsto> [])\<rparr> \<and>
      p \<noteq> [] \<and> components p \<noteq> [] \<and> \<not> endswith_sep p \<and> last (components p) \<noteq> ''.'' \<and>
      last (components p) \<noteq> ''..''"
  using assms by (auto simp: open_w_def is_dir_def split: if_splits sum.splits)

lemma open_w_extends: "open_w p s = Inr (f, s1) \<Longrightarrow> extends s1 s \<and> f \<in> dom (files s1)"
  by (drule open_w_Inr) (auto simp: extends_def)

lemma open_w_wf:
  assumes "open_w p s = Inr (f, s1)" and "wf_fs s"
  shows "wf_fs s1"
proof -
  from open_w_Inr [OF assms(1)] have "f \<notin> dirs s" and "s1 = s\<lparr>files := (files s)(f \<mapsto> [])\<rparr>"
    by blast+
  with assms(2) show ?thesis
    by (simp add: wf_fs_def)
qed

lemma open_w_replay:
  assumes o: "open_w p s = Inr (f, s1)" and e: "extends t s1" and w: "wf_fs t"
  shows "open_w p t = Inr (f, t\<lparr>files := (files t)(f \<mapsto> [])\<rparr>)"
proof -
  from open_w_Inr [OF o] obtain d where
    d: "walk s (start s p) (butlast (components p)) = Inr d"
    and f: "f = d @ [last (components p)]"
    and s1: "s1 = s\<lparr>files := (files s)(f \<mapsto> [])\<rparr>"
    and p: "p \<noteq> []" "components p \<noteq> []" "\<not> endswith_sep p" "last (components p) \<noteq> ''.''"
      "last (components p) \<noteq> ''..''"
    by blast
  have c: "start t p = start s p"
    using e s1 by (simp add: extends_def start_def)
  have "dirs s \<subseteq> dirs t"
    using e s1 by (simp add: extends_def)
  with d have wt: "walk t (start t p) (butlast (components p)) = Inr d"
    unfolding c by (rule walk_mono)
  have "f \<in> dom (files t)"
    using e s1 by (auto simp: extends_def)
  with w have "f \<notin> dirs t"
    by (auto simp: wf_fs_def)
  then have "\<not> is_dir t (d @ [last (components p)])"
    by (simp add: is_dir_def f)
  with wt p show ?thesis
    by (simp add: open_w_def f)
qed

lemma makedirs_wf: "makedirs s cur cs = Inr s1 \<Longrightarrow> wf_fs s \<Longrightarrow> wf_fs s1"
proof (induction s cur cs rule: makedirs.induct)
  case (1 fs cur)
  then show ?case by simp
next
  case (2 fs cur c cs)
  show ?case
  proof (cases "c = ''.'' \<or> c = ''..''")
    case True
    with 2 show ?thesis
      by (auto split: if_splits)
  next
    case False
    with "2.prems" have f: "cur @ [c] \<notin> dom (files fs)"
      and m: "makedirs (fs\<lparr>dirs := insert (cur @ [c]) (dirs fs)\<rparr>) (cur @ [c]) cs = Inr s1"
      by (auto split: if_splits)
    have "wf_fs (fs\<lparr>dirs := insert (cur @ [c]) (dirs fs)\<rparr>)"
      using f "2.prems"(2) by (simp add: wf_fs_def)
    with False f m show ?thesis
      by (intro "2.IH") auto
  qed
qed

lemma makedirs_replay:
  "makedirs s cur cs = Inr s1 \<Longrightarrow> dirs s1 \<subseteq> dirs t \<Longrightarrow> wf_fs t \<Longrightarrow> makedirs t cur cs = Inr t"
proof (induction s cur cs rule: makedirs.induct)
  case (1 fs cur)
  show ?case by simp
next
  case (2 fs cur c cs)
  show ?case
  proof (cases "c = ''.'' \<or> c = ''..''")
    case True
    with 2 show ?thesis
      by (auto split: if_splits)
  next
    case False
    with "2.prems" have f: "cur @ [c] \<notin> dom (files fs)"
      and m: "makedirs (fs\<lparr>dirs := insert (cur @ [c]) (dirs fs)\<rparr>) (cur @ [c]) cs = Inr s1"
      by (auto split: if_splits)
    from False f m "2.prems" have r: "makedirs t (cur @ [c]) cs = Inr t"
      by (intro "2.IH") auto
    have x: "cur @ [c] \<in> dirs t"
      using makedirs_mono [OF m] "2.prems"(2) by auto
    with "2.prems"(3) have "cur @ [c] \<notin> dom (files t)"
      by (auto simp: wf_fs_def)
    moreover have "t\<lparr>dirs := insert (cur @ [c]) (dirs t)\<rparr> = t"
      using x by (simp add: insert_absorb)
    ultimately show ?thesis
      using False r by simp
  qed
qed

lemma mkdir_extends: "mkdir p s = Inr s1 \<Longrightarrow> extends s1 s \<and> files s1 = files s"
  using makedirs_mono [of s "start s p" "components p" s1]
  by (simp add: mkdir_def extends_def)

lemma mkdir_wf: "mkdir p s = Inr s1 \<Longrightarrow> wf_fs s \<Longrightarrow> wf_fs s1"
  unfolding mkdir_def by (rule makedirs_wf)

lemma mkdir_replay:
  assumes "mkdir p s = Inr s1" and "extends t s1" and "wf_fs t"
  shows "mkdir p t = Inr t"
proof -
  have c: "start t p = start s p"
    using assms(2) mkdir_extends [OF assms(1)] by (simp add: extends_def start_def)
  have "makedirs t (start s p) (components p) = Inr t"
  proof (rule makedirs_replay)
    show "makedirs s (start s p) (components p) = Inr s1"
      using assms(1) by (simp add: mkdir_def)
    show "dirs s1 \<subseteq> dirs t"
      using assms(2) by (simp add: extends_def)
    show "wf_fs t" by (rule assms(3))
  qed
  then show ?thesis
    by (simp add: mkdir_def c)
qed

lemma writes_extends:
  "extends t s \<Longrightarrow> dom W \<subseteq> dom (files t) \<Longrightarrow> extends (writes W t) s"
  by (simp add: extends_def writes_def) blast

lemma writes_wf: "wf_fs t \<Longrightarrow> dom W \<subseteq> dom (files t) \<Longrightarrow> wf_fs (writes W t)"
  by (simp add: wf_fs_def writes_def) blast

lemma writes_writes: "writes V (writes W t) = writes (W ++ V) t"
  by (simp add: writes_def)

lemma fwrite_open: "fwrite f page (t\<lparr>files := (files t)(f \<mapsto> [])\<rparr>) = writes [f \<mapsto> page] t"
  by (simp add: fwrite_def writes_def)

lemma page_replay:
  assumes o: "open_w p s = Inr (f, s1)"
  shows "extends (fwrite f page s1) s"
    and "wf_fs s \<Longrightarrow> wf_fs (fwrite f page s1)"
    and "files (fwrite f page s1) = files s ++ [f \<mapsto> page]"
    and "extends t (fwrite f page s1) \<Longrightarrow> wf_fs t \<Longrightarrow>
         open_w p t = Inr (f, t\<lparr>files := (files t)(f \<mapsto> [])\<rparr>)"
proof -
  from open_w_Inr [OF o] have n: "f \<notin> dirs s" and s1: "s1 = s\<lparr>files := (files s)(f \<mapsto> [])\<rparr>"
    by blast+
  show "extends (fwrite f page s1) s"
    by (auto simp: extends_def fwrite_def s1)
  show "wf_fs (fwrite f page s1)" if "wf_fs s"
    using that n by (simp add: wf_fs_def fwrite_def s1)
  show "files (fwrite f page s1) = files s ++ [f \<mapsto> page]"
    by (simp add: fwrite_def s1)
  show "open_w p t = Inr (f, t\<lparr>files := (files t)(f \<mapsto> [])\<rparr>)"
    if e: "extends t (fwrite f page s1)" and w: "wf_fs t"
  proof (rule open_w_replay [OF o _ w])
    have "extends (fwrite f page s1) s1"
      by (auto simp: extends_def fwrite_def)
    with e show "extends t s1"
      by (rule extends_trans)
  qed
qed

lemma index_replay:
  assumes i: "index a posts s = (None, s')"
  shows "extends s' s \<and> (wf_fs s \<longrightarrow> wf_fs s') \<and>
     (\<exists>W. files s' = files s ++ W \<and>
        (\<forall>t. extends t s' \<and> wf_fs t \<longrightarrow> index a posts t = (None, writes W t)))"
proof -
  from i obtain f s1 where
    o: "open_w (join (paths_output (conf a)) (index_save_as (conf a))) s = Inr (f, s1)"
    by (auto simp: index_def Let_def split: sum.splits)
  with i obtain page where p: "template a posts (sitename (conf a)) = Inr page"
    by (auto simp: index_def Let_def split: sum.splits)
  from i o p have s': "s' = fwrite f page s1"
    by (simp add: index_def Let_def)
  note r = page_replay [OF o, where page = page, folded s']
  have "\<forall>t. extends t s' \<and> wf_fs t \<longrightarrow> index a posts t = (None, writes [f \<mapsto> page] t)"
  proof (intro allI impI, elim conjE)
    fix t
    assume "extends t s'" and "wf_fs t"
    then have "open_w (join (paths_output (conf a)) (index_save_as (conf a))) t =
        Inr (f, t\<lparr>files := (files t)(f \<mapsto> [])\<rparr>)"
      by (rule r(4))
    then show "index a posts t = (None, writes [f \<mapsto> page] t)"
      by (simp add: index_def Let_def p fwrite_open)
  qed
  with r(1) r(2) r(3) show ?thesis
    by blast
qed

lemma feed_replay:
  assumes i: "feed a n1 posts s = (None, s')"
  shows "\<exists>f. files s' =
       (files s)(f \<mapsto> feed_template (feed_documents a posts) (feed_credentials a n1)) \<and>
     (\<forall>t n2. extends t s' \<and> wf_fs t \<longrightarrow>
        feed a n2 posts t =
          (None, fwrite f (feed_template (feed_documents a posts) (feed_credentials a n2)) t))"
proof -
  from i obtain s0 where
    m: "mkdir (dirname (join (paths_output (conf a)) (feed_save_as (conf a)))) s = Inr s0"
    by (auto simp: feed_def Let_def split: sum.splits)
  with i obtain f s1 where
    o: "open_w (join (paths_output (conf a)) (feed_save_as (conf a))) s0 = Inr (f, s1)"
    by (auto simp: feed_def Let_def split: sum.splits)
  from i have s': "s' =
      fwrite f (feed_template (feed_documents a posts) (feed_credentials a n1)) s1"
    by (simp add: feed_written [OF m o])
  note r = page_replay [OF o,
      where page = "feed_template (feed_documents a posts) (feed_credentials a n1)", folded s']
  have c: "files s' =
      (files s)(f \<mapsto> feed_template (feed_documents a posts) (feed_credentials a n1))"
    using r(3) mkdir_extends [OF m] by simp
  have "\<forall>t n2. extends t s' \<and> wf_fs t \<longrightarrow>
      feed a n2 posts t =
        (None, fwrite f (feed_template (feed_documents a posts) (feed_credentials a n2)) t)"
  proof (intro allI impI, elim conjE)
    fix t n2
    assume e: "extends t s'" and w: "wf_fs t"
    have "extends t s0"
      using e r(1) by (rule extends_trans)
    with m have mt: "mkdir (dirname (join (paths_output (conf a)) (feed_save_as (conf a)))) t =
        Inr t"
      using w by (rule mkdir_replay)
    have ot: "open_w (join (paths_output (conf a)) (feed_save_as (conf a))) t =
        Inr (f, t\<lparr>files := (files t)(f \<mapsto> [])\<rparr>)"
      using e w by (rule r(4))
    have "feed a n2 posts t =
        (None, fwrite f (feed_template (feed_documents a posts) (feed_credentials a n2))
           (t\<lparr>files := (files t)(f \<mapsto> [])\<rparr>))"
      by (rule feed_written [OF mt ot])
    then show "feed a n2 posts t =
        (None, fwrite f (feed_template (feed_documents a posts) (feed_credentials a n2)) t)"
      by (simp add: fwrite_def)
  qed
  with c show ?thesis
    by blast
qed

lemma feed_extends:
  assumes i: "feed a n1 posts s = (None, s')"
  shows "extends s' s" and "wf_fs s \<Longrightarrow> wf_fs s'"
proof -
  from i obtain s0 where
    m: "mkdir (dirname (join (paths_output (conf a)) (feed_save_as (conf a)))) s = Inr s0"
    by (auto simp: feed_def Let_def split: sum.splits)
  with i obtain f s1 where
    o: "open_w (join (paths_output (conf a)) (feed_save_as (conf a))) s0 = Inr (f, s1)"
    by (auto simp: feed_def Let_def split: sum.splits)
  from i have s': "s' =
      fwrite f (feed_template (feed_documents a posts) (feed_credentials a n1)) s1"
    by (simp add: feed_written [OF m o])
  note r = page_replay [OF o,
      where page = "feed_template (feed_documents a posts) (feed_credentials a n1)", folded s']
  show "extends s' s"
    using r(1) mkdir_extends [OF m, THEN conjunct1] by (rule extends_trans)
  show "wf_fs s'" if "wf_fs s"
    by (rule r(2)) (rule mkdir_wf [OF m that])
qed

lemma tags_pages_replay:
  "tags_pages a d ts s = (None, s') \<Longrightarrow>
   extends s' s \<and> (wf_fs s \<longrightarrow> wf_fs s') \<and>
   (\<exists>W. files s' = files s ++ W \<and>
      (\<forall>t. extends t s' \<and> wf_fs t \<longrightarrow> tags_pages a d ts t = (None, writes W t)))"
proof (induction ts arbitrary: s)
  case Nil
  then have "s' = s"
    by simp
  moreover have "files s = files s ++ Map.empty \<and>
      (\<forall>t. extends t s \<and> wf_fs t \<longrightarrow> tags_pages a d [] t = (None, writes Map.empty t))"
    by (simp add: writes_def)
  ultimately show ?case
    using extends_refl by blast
next
  case (Cons tag ts)
  let ?dir = "join (join (paths_output (conf a)) (tags_output (conf a))) tag"
  from Cons.prems obtain s0 where m: "mkdir ?dir s = Inr s0"
    by (auto simp: Let_def split: sum.splits)
  with Cons.prems obtain f s1 where
    o: "open_w (join ?dir (tags_save_as (conf a))) s0 = Inr (f, s1)"
    by (auto simp: Let_def split: sum.splits)
  with m Cons.prems obtain page where
    p: "template a (getitem d tag) (sitename (conf a)) = Inr page"
    by (auto simp: Let_def split: sum.splits)
  define s2 where "s2 = fwrite f page s1"
  have rest: "tags_pages a d ts s2 = (None, s')"
    using Cons.prems by (simp add: m o p Let_def s2_def)
  note r = page_replay [OF o, where page = page, folded s2_def]
  from Cons.IH [OF rest] obtain W where
    e2: "extends s' s2" and w2: "wf_fs s2 \<longrightarrow> wf_fs s'" and f2: "files s' = files s2 ++ W"
    and t2: "\<forall>t. extends t s' \<and> wf_fs t \<longrightarrow> tags_pages a d ts t = (None, writes W t)"
    by blast
  have e0: "extends s0 s" and f0: "files s0 = files s"
    using mkdir_extends [OF m] by simp_all
  have e: "extends s' s"
    using e2 extends_trans [OF r(1) e0] by (rule extends_trans)
  have w: "wf_fs s \<longrightarrow> wf_fs s'"
    using w2 r(2) mkdir_wf [OF m] by blast
  have f: "files s' = files s ++ ([f \<mapsto> page] ++ W)"
    by (simp add: f2 r(3) f0)
  have "\<forall>t. extends t s' \<and> wf_fs t \<longrightarrow>
      tags_pages a d (tag # ts) t = (None, writes ([f \<mapsto> page] ++ W) t)"
  proof (intro allI impI, elim conjE)
    fix t
    assume et: "extends t s'" and wt: "wf_fs t"
    have et2: "extends t s2"
      using et e2 by (rule extends_trans)
    then have "extends t s0"
      using r(1) by (rule extends_trans)
    with m have mt: "mkdir ?dir t = Inr t"
      using wt by (rule mkdir_replay)
    have ot: "open_w (join ?dir (tags_save_as (conf a))) t =
        Inr (f, t\<lparr>files := (files t)(f \<mapsto> [])\<rparr>)"
      using et2 wt by (rule r(4))
    have "f \<in> dom (files s2)"
      by (simp add: r(3))
    then have d: "dom [f \<mapsto> page] \<subseteq> dom (files t)"
      using et2 by (auto simp: extends_def)
    have "extends (writes [f \<mapsto> page] t) s' \<and> wf_fs (writes [f \<mapsto> page] t)"
      using et wt d by (simp add: writes_extends writes_wf)
    with t2 have "tags_pages a d ts (writes [f \<mapsto> page] t) =
        (None, writes W (writes [f \<mapsto> page] t))"
      by blast
    then show "tags_pages a d (tag # ts) t = (None, writes ([f \<mapsto> page] ++ W) t)"
      by (simp add: mt ot p Let_def fwrite_open writes_writes)
  qed
  with e w f show ?case
    by blast
qed

lemma generate_steps:
  assumes "generate a now documents fs = (None, F)"
  shows "\<exists>s1 s2. index a (extract_posts documents) fs = (None, s1) \<and>
      tags_blog a (extract_posts documents) s1 = (None, s2) \<and>
      feed a now (extract_posts documents) s2 = (None, F)"
  using assms by (auto simp: generate_def Let_def split: prod.splits option.splits)

lemma files_extends: "files s' = files s ++ W \<Longrightarrow> extends t s' \<Longrightarrow> dom W \<subseteq> dom (files t)"
proof -
  assume "files s' = files s ++ W" and e: "extends t s'"
  then have "dom W \<subseteq> dom (files s')"
    by simp
  also have "\<dots> \<subseteq> dom (files t)"
    using e by (simp add: extends_def)
  finally show ?thesis .
qed

lemma fwrite_writes:
  assumes "files F = (m ++ W)(f \<mapsto> c)"
  shows "fwrite f c' (writes W F) = fwrite f c' F"
proof -
  have "(files F ++ W)(f \<mapsto> c') = (files F)(f \<mapsto> c')"
    unfolding assms by (rule ext) (simp add: map_add_def split: option.splits)
  then show ?thesis
    by (simp add: fwrite_def writes_def)
qed

lemma generate_again:
  assumes g: "generate a n1 documents fs = (None, F)" and w: "wf_fs fs"
  shows "\<exists>f. files F f =
        Some (feed_template (feed_documents a (extract_posts documents)) (feed_credentials a n1)) \<and>
     (\<forall>n2. generate a n2 documents F =
        (None, fwrite f (feed_template (feed_documents a (extract_posts documents))
                 (feed_credentials a n2)) F))"
proof -
  from generate_steps [OF g] obtain s1 s2 where
    i: "index a (extract_posts documents) fs = (None, s1)"
    and t: "tags_blog a (extract_posts documents) s1 = (None, s2)"
    and f: "feed a n1 (extract_posts documents) s2 = (None, F)"
    by blast
  from index_replay [OF i] w obtain W1 where
    e1: "extends s1 fs" and w1: "wf_fs s1" and f1: "files s1 = files fs ++ W1"
    and r1: "\<forall>t. extends t s1 \<and> wf_fs t \<longrightarrow>
        index a (extract_posts documents) t = (None, writes W1 t)"
    by blast
  from tags_pages_replay [OF t [unfolded tags_blog_def]] w1 obtain W2 where
    e2: "extends s2 s1" and w2: "wf_fs s2" and f2: "files s2 = files s1 ++ W2"
    and r2: "\<forall>t. extends t s2 \<and> wf_fs t \<longrightarrow>
        tags_blog a (extract_posts documents) t = (None, writes W2 t)"
    unfolding tags_blog_def by blast
  have e3: "extends F s2" and w3: "wf_fs F"
    using feed_extends [OF f] w2 by simp_all
  from feed_replay [OF f] obtain n where
    f3: "files F = (files s2)(n \<mapsto>
        feed_template (feed_documents a (extract_posts documents)) (feed_credentials a n1))"
    and r3: "\<forall>t n2. extends t F \<and> wf_fs t \<longrightarrow>
        feed a n2 (extract_posts documents) t =
          (None, fwrite n (feed_template (feed_documents a (extract_posts documents))
                   (feed_credentials a n2)) t)"
    by blast
  have e31: "extends F s1"
    using e3 e2 by (rule extends_trans)
  have d1: "dom W1 \<subseteq> dom (files F)"
    using f1 e31 by (rule files_extends)
  have d2: "dom W2 \<subseteq> dom (files F)"
    using f2 e3 by (rule files_extends)
  have d12: "dom (W1 ++ W2) \<subseteq> dom (files F)"
    using d1 d2 by simp
  have i': "index a (extract_posts documents) F = (None, writes W1 F)"
    using r1 e31 w3 by blast
  have "extends (writes W1 F) s2 \<and> wf_fs (writes W1 F)"
    using e3 w3 d1 by (simp add: writes_extends writes_wf)
  with r2 have t': "tags_blog a (extract_posts documents) (writes W1 F) =
      (None, writes (W1 ++ W2) F)"
    by (simp add: writes_writes)
  have x: "extends (writes (W1 ++ W2) F) F \<and> wf_fs (writes (W1 ++ W2) F)"
    using extends_refl [of F] w3 d12 by (simp add: writes_extends writes_wf)
  have ff: "files F = (files fs ++ (W1 ++ W2))(n \<mapsto>
      feed_template (feed_documents a (extract_posts documents)) (feed_credentials a n1))"
    by (simp add: f3 f2 f1)
  have "\<forall>n2. generate a n2 documents F =
      (None, fwrite n (feed_template (feed_documents a (extract_posts documents))
               (feed_credentials a n2)) F)"
  proof
    fix n2
    have "feed a n2 (extract_posts documents) (writes (W1 ++ W2) F) =
        (None, fwrite n (feed_template (feed_documents a (extract_posts documents))
                 (feed_credentials a n2)) (writes (W1 ++ W2) F))"
      using r3 x by blast
    then have "feed a n2 (extract_posts documents) (writes (W1 ++ W2) F) =
        (None, fwrite n (feed_template (feed_documents a (extract_posts documents))
                 (feed_credentials a n2)) F)"
      by (simp only: fwrite_writes [OF ff])
    then show "generate a n2 documents F =
        (None, fwrite n (feed_template (feed_documents a (extract_posts documents))
                 (feed_credentials a n2)) F)"
      by (simp add: generate_def i' t')
  qed
  moreover have "files F n =
      Some (feed_template (feed_documents a (extract_posts documents)) (feed_credentials a n1))"
    by (simp add: f3)
  ultimately show ?thesis
    by blast
qed

lemma fwrite_same: "files F f = Some c \<Longrightarrow> fwrite f c F = F"
  by (simp add: fwrite_def map_upd_triv)

section \<open>The claims\<close>

text \<open>
  C1. For every sequence of documents, \<open>extract_posts\<close> returns the documents of
  class Post, each as often as it occurs in the input, in descending order of
  \<open>created\<close> (non-increasing from one element to the next); documents with the same
  \<open>created\<close> keep the relative order they have in the input: for every instant, the
  documents created at that instant form the same sequence in the output and in the
  input.
\<close>

theorem extract_posts_descending_stable:
  "created_descending (extract_posts documents) \<and>
   (\<forall>t. filter (\<lambda>d. created d = t) (extract_posts documents) =
        filter (\<lambda>d. created d = t) (filter isinstance_Post documents)) \<and>
   length (extract_posts documents) = length (filter isinstance_Post documents)"
proof -
  have "created_descending (extract_posts documents)"
    unfolding created_descending_def extract_posts_def
    by (rule sorted_py_reverse_descending)
  moreover have "\<forall>t. filter (\<lambda>d. created d = t) (extract_posts documents) =
        filter (\<lambda>d. created d = t) (filter isinstance_Post documents)"
    unfolding extract_posts_def by (simp only: sorted_py_stable) simp
  moreover have "length (extract_posts documents) = length (filter isinstance_Post documents)"
    unfolding extract_posts_def by (simp only: sorted_py_length)
  ultimately show ?thesis by blast
qed

theorem extract_posts_descending_stable_witness:
  "extract_posts [mk_doc Post 1 ''a'' None, mk_doc Page 9 ''p'' None,
                  mk_doc Post 3 ''b'' None, mk_doc Post 1 ''c'' None] =
     [mk_doc Post 3 ''b'' None, mk_doc Post 1 ''a'' None, mk_doc Post 1 ''c'' None] \<and>
   created_descending (extract_posts [mk_doc Post 1 ''a'' None, mk_doc Page 9 ''p'' None,
                  mk_doc Post 3 ''b'' None, mk_doc Post 1 ''c'' None])"
  using extract_posts_descending_stable
    [of "[mk_doc Post 1 ''a'' None, mk_doc Page 9 ''p'' None,
          mk_doc Post 3 ''b'' None, mk_doc Post 1 ''c'' None]"]
  by (simp add: extract_posts_def sorted_py_def isinstance_Post_def mk_doc_def)

text \<open>
  C2. The dictionary of tags built by \<open>tags\<close>: every post carrying a tag is in the
  group of that tag (so a post with tags A and B is in both groups); a group holds the
  posts carrying its tag in the order of the input list, each once per occurrence of the
  tag in its list, which is the list of posts filtered on the tag when no post repeats
  a tag; a group of a list in descending order of creation is in descending order; no
  tag has two groups; a post whose tag list is missing or empty is in no group, and the
  dictionary is the one built without it.
\<close>

theorem tags_dict_groups:
  "(\<forall>p \<in> set posts. \<forall>T \<in> set (post_tags p).
      \<exists>g. (T, g) \<in> set (tags_dict posts) \<and> p \<in> set g) \<and>
   (\<forall>(T, g) \<in> set (tags_dict posts).
      g = concat (map (\<lambda>p. replicate (count_list (post_tags p) T) p) posts) \<and>
      ((\<forall>p \<in> set posts. distinct (post_tags p)) \<longrightarrow>
         g = filter (\<lambda>p. T \<in> set (post_tags p)) posts) \<and>
      (created_descending posts \<longrightarrow> created_descending g)) \<and>
   distinct (map fst (tags_dict posts)) \<and>
   (post_tags q = [] \<longrightarrow>
      tags_dict (xs @ q # ys) = tags_dict (xs @ ys) \<and>
      (\<forall>(T, g) \<in> set (tags_dict posts). q \<notin> set g))"
proof -
  have complete: "\<forall>p \<in> set posts. \<forall>T \<in> set (post_tags p).
      \<exists>g. (T, g) \<in> set (tags_dict posts) \<and> p \<in> set g"
  proof (intro ballI)
    fix p T
    assume "p \<in> set posts" and "T \<in> set (post_tags p)"
    then have "(T, getitem (tags_dict posts) T) \<in> set (tags_dict posts) \<and>
               p \<in> set (getitem (tags_dict posts) T)"
      by (rule tags_dict_complete)
    then show "\<exists>g. (T, g) \<in> set (tags_dict posts) \<and> p \<in> set g"
      by (rule exI)
  qed
  have groups: "\<forall>(T, g) \<in> set (tags_dict posts).
      g = concat (map (\<lambda>p. replicate (count_list (post_tags p) T) p) posts) \<and>
      ((\<forall>p \<in> set posts. distinct (post_tags p)) \<longrightarrow>
         g = filter (\<lambda>p. T \<in> set (post_tags p)) posts) \<and>
      (created_descending posts \<longrightarrow> created_descending g)"
  proof (clarify, intro conjI impI)
    fix T g
    assume "(T, g) \<in> set (tags_dict posts)"
    then show g: "g = concat (map (\<lambda>p. replicate (count_list (post_tags p) T) p) posts)"
      by (rule tags_dict_entry)
    show "g = filter (\<lambda>p. T \<in> set (post_tags p)) posts"
      if "\<forall>p \<in> set posts. distinct (post_tags p)"
      using g that by (simp add: replicate_groups_filter)
    show "created_descending g" if "created_descending posts"
      using that unfolding g created_descending_def
      by (rule sorted_wrt_replicate_groups) simp
  qed
  have keys: "distinct (map fst (tags_dict posts))"
    using dict_ok_tags_dict [of posts] by (simp add: dict_ok_def)
  have untagged: "post_tags q = [] \<longrightarrow>
      tags_dict (xs @ q # ys) = tags_dict (xs @ ys) \<and>
      (\<forall>(T, g) \<in> set (tags_dict posts). q \<notin> set g)"
  proof (intro impI conjI)
    assume q: "post_tags q = []"
    then show "tags_dict (xs @ q # ys) = tags_dict (xs @ ys)"
      by (rule tags_dict_no_tags)
    show "\<forall>(T, g) \<in> set (tags_dict posts). q \<notin> set g"
    proof (clarify)
      fix T g
      assume "(T, g) \<in> set (tags_dict posts)" and "q \<in> set g"
      then have "q \<in> set posts \<and> T \<in> set (post_tags q)"
        by (rule tags_dict_member)
      with q show False by simp
    qed
  qed
  from complete groups keys untagged show ?thesis
    by (intro conjI)
qed


theorem tags_dict_groups_witness:
  "tags_dict [post_b, post_a, post_c] = [(''go'', [post_b]), (''py'', [post_b, post_c])] \<and>
   created_descending [post_b, post_a, post_c] \<and>
   created_descending [post_b, post_c] \<and>
   post_tags post_a = [] \<and>
   tags_dict ([post_b] @ post_a # [post_c]) = tags_dict ([post_b] @ [post_c])"
proof -
  have d: "tags_dict [post_b, post_a, post_c] = [(''go'', [post_b]), (''py'', [post_b, post_c])]"
    by (simp add: tags_dict_def ex_post_tags)
  have s: "created_descending [post_b, post_a, post_c]"
    by (simp add: created_descending_def ex_created)
  have n: "post_tags post_a = []"
    by (rule ex_post_tags)
  note inst = tags_dict_groups [of "[post_b, post_a, post_c]" post_a "[post_b]" "[post_c]"]
  have s': "created_descending [post_b, post_c]"
    by (simp add: created_descending_def ex_created)
  have e: "tags_dict ([post_b] @ post_a # [post_c]) = tags_dict ([post_b] @ [post_c])"
    using inst [THEN conjunct2, THEN conjunct2, THEN conjunct2, THEN mp, OF n] by (rule conjunct1)
  from d s s' n e show ?thesis
    by (intro conjI)
qed

text \<open>
  C3. The claim as it is written fails for a negative \<open>posts_number\<close>: with
  \<open>posts_number = -1\<close> and three posts the feed holds the first two, not the first
  \<open>posts_number\<close> of them (none). For every \<open>posts_number\<close> that is not negative,
  the documents of the feed are exactly the first \<open>posts_number\<close> posts of the list,
  all of them when \<open>posts_number\<close> is at least the length of the list; they are in
  descending order when the list is. When the directory of the feed can be made and the
  file opens, \<open>feed\<close> ends without an exception and the file holds the template
  rendered with exactly these documents; the only exceptions of \<open>feed\<close> are those of
  \<open>mkdir\<close> and \<open>open\<close>, so the slice raises none.
\<close>

theorem feed_documents_first:
  "0 \<le> feed_posts_number (conf a) \<Longrightarrow>
     feed_documents a posts = take (nat (feed_posts_number (conf a))) posts \<and>
     (int (length posts) \<le> feed_posts_number (conf a) \<longrightarrow> feed_documents a posts = posts) \<and>
     (created_descending posts \<longrightarrow> created_descending (feed_documents a posts)) \<and>
     (\<forall>fs1 f fs2.
        mkdir (dirname (join (paths_output (conf a)) (feed_save_as (conf a)))) fs = Inr fs1 \<and>
        open_w (join (paths_output (conf a)) (feed_save_as (conf a))) fs1 = Inr (f, fs2) \<longrightarrow>
        feed a now posts fs =
          (None, fwrite f (feed_template (take (nat (feed_posts_number (conf a))) posts)
                   (feed_credentials a now)) fs2)) \<and>
     fst (feed a now posts fs) =
       (case mkdir (dirname (join (paths_output (conf a)) (feed_save_as (conf a)))) fs of
          Inl err \<Rightarrow> Some err
        | Inr fs1 \<Rightarrow>
            (case open_w (join (paths_output (conf a)) (feed_save_as (conf a))) fs1 of
               Inl err \<Rightarrow> Some err
             | Inr r \<Rightarrow> None))"
proof -
  assume n: "0 \<le> feed_posts_number (conf a)"
  then have t: "feed_documents a posts = take (nat (feed_posts_number (conf a))) posts"
    by (simp add: feed_documents_def slice_to_nonneg)
  have all: "int (length posts) \<le> feed_posts_number (conf a) \<longrightarrow> feed_documents a posts = posts"
    using t by simp
  have desc: "created_descending posts \<longrightarrow> created_descending (feed_documents a posts)"
    using t by (simp add: created_descending_take)
  have written: "\<forall>fs1 f fs2.
        mkdir (dirname (join (paths_output (conf a)) (feed_save_as (conf a)))) fs = Inr fs1 \<and>
        open_w (join (paths_output (conf a)) (feed_save_as (conf a))) fs1 = Inr (f, fs2) \<longrightarrow>
        feed a now posts fs =
          (None, fwrite f (feed_template (take (nat (feed_posts_number (conf a))) posts)
                   (feed_credentials a now)) fs2)"
  proof (intro allI impI, elim conjE)
    fix fs1 f fs2
    assume "mkdir (dirname (join (paths_output (conf a)) (feed_save_as (conf a)))) fs = Inr fs1"
      and "open_w (join (paths_output (conf a)) (feed_save_as (conf a))) fs1 = Inr (f, fs2)"
    then have "feed a now posts fs =
        (None, fwrite f (feed_template (feed_documents a posts) (feed_credentials a now)) fs2)"
      by (rule feed_written)
    then show "feed a now posts fs =
          (None, fwrite f (feed_template (take (nat (feed_posts_number (conf a))) posts)
                   (feed_credentials a now)) fs2)"
      by (simp only: t)
  qed
  note err = feed_error [of a now posts fs]
  from t all desc written err show ?thesis
    by (intro conjI)
qed

theorem feed_documents_first_witness:
  "(0::int) \<le> feed_posts_number (conf ex_app) \<and>
   feed_documents ex_app [post_b, post_a, post_c] = [post_b, post_a] \<and>
   fst (feed ex_app ex_clock [post_b, post_a, post_c] ex_fs) = None \<and>
   files (snd (feed ex_app ex_clock [post_b, post_a, post_c] ex_fs)) ex_feed_node =
     Some (join_lines ex_feed_lines)"
proof -
  have n: "0 \<le> feed_posts_number (conf ex_app)"
    by (simp add: ex_conf_fields)
  note inst = feed_documents_first [OF n, of "[post_b, post_a, post_c]" ex_fs ex_clock]
  have "feed_documents ex_app [post_b, post_a, post_c] =
          take (nat (feed_posts_number (conf ex_app))) [post_b, post_a, post_c]"
    using inst by (rule conjunct1)
  then have d: "feed_documents ex_app [post_b, post_a, post_c] = [post_b, post_a]"
    by (simp add: ex_conf_fields)
  have "feed ex_app ex_clock [post_b, post_a, post_c] ex_fs =
     (None, fwrite ex_feed_node
        (feed_template (take (nat (feed_posts_number (conf ex_app))) [post_b, post_a, post_c])
           (feed_credentials ex_app ex_clock))
        (ex_fs1\<lparr>files := [ex_feed_node \<mapsto> []]\<rparr>))"
    by (rule inst [THEN conjunct2, THEN conjunct2, THEN conjunct2, THEN conjunct1, rule_format])
      (rule conjI [OF ex_feed_mkdir ex_feed_open])
  then have w: "feed ex_app ex_clock [post_b, post_a, post_c] ex_fs =
     (None, fwrite ex_feed_node (join_lines ex_feed_lines)
        (ex_fs1\<lparr>files := [ex_feed_node \<mapsto> []]\<rparr>))"
    by (simp add: ex_conf_fields ex_feed_template)
  from n d show ?thesis
    by (simp add: w files_fwrite)
qed

theorem feed_documents_first_counterexample:
  "feed_documents ex_app_neg [post_b, post_a, post_c] \<noteq>
     take (nat (feed_posts_number (conf ex_app_neg))) [post_b, post_a, post_c]"
  by (simp add: feed_documents_def slice_to_def ex_neg_conf_fields)

text \<open>
  C10. With a negative \<open>posts_number\<close> the slice raises nothing and keeps the first
  \<open>len(posts) + posts_number\<close> posts: none when \<open>-posts_number\<close> is at least the
  length of the list, and every post but the last (the oldest of a list in descending
  order) when \<open>posts_number = -1\<close>. What the slice leaves out is the end of the list,
  and what it keeps is not the \<open>-posts_number\<close> most recent posts, unless the two
  numbers of posts happen to agree. When the directory of the feed can be made and the
  file opens, \<open>feed\<close> ends without an exception and the file holds the template
  rendered with exactly the documents kept; the only exceptions of \<open>feed\<close> are those
  of \<open>mkdir\<close> and \<open>open\<close>.
\<close>

theorem feed_documents_negative:
  "feed_posts_number (conf a) < 0 \<Longrightarrow>
     feed_documents a posts = take (nat (int (length posts) + feed_posts_number (conf a))) posts \<and>
     (int (length posts) \<le> - feed_posts_number (conf a) \<longrightarrow> feed_documents a posts = []) \<and>
     (feed_posts_number (conf a) = - 1 \<longrightarrow> feed_documents a posts = butlast posts) \<and>
     feed_documents a posts @ drop (nat (int (length posts) + feed_posts_number (conf a))) posts =
       posts \<and>
     (feed_documents a posts = take (nat (- feed_posts_number (conf a))) posts) =
       (nat (int (length posts) + feed_posts_number (conf a)) =
          min (nat (- feed_posts_number (conf a))) (length posts)) \<and>
     (\<forall>fs1 f fs2.
        mkdir (dirname (join (paths_output (conf a)) (feed_save_as (conf a)))) fs = Inr fs1 \<and>
        open_w (join (paths_output (conf a)) (feed_save_as (conf a))) fs1 = Inr (f, fs2) \<longrightarrow>
        feed a now posts fs =
          (None, fwrite f
                   (feed_template
                      (take (nat (int (length posts) + feed_posts_number (conf a))) posts)
                      (feed_credentials a now)) fs2)) \<and>
     fst (feed a now posts fs) =
       (case mkdir (dirname (join (paths_output (conf a)) (feed_save_as (conf a)))) fs of
          Inl err \<Rightarrow> Some err
        | Inr fs1 \<Rightarrow>
            (case open_w (join (paths_output (conf a)) (feed_save_as (conf a))) fs1 of
               Inl err \<Rightarrow> Some err
             | Inr r \<Rightarrow> None))"
proof -
  assume n: "feed_posts_number (conf a) < 0"
  then have t: "feed_documents a posts =
      take (nat (int (length posts) + feed_posts_number (conf a))) posts"
    by (simp add: feed_documents_def slice_to_negative)
  have none: "int (length posts) \<le> - feed_posts_number (conf a) \<longrightarrow> feed_documents a posts = []"
    using t by simp
  have last: "feed_posts_number (conf a) = - 1 \<longrightarrow> feed_documents a posts = butlast posts"
  proof
    assume "feed_posts_number (conf a) = - 1"
    then have "nat (int (length posts) + feed_posts_number (conf a)) = length posts - 1"
      by simp
    then show "feed_documents a posts = butlast posts"
      using t by (simp add: butlast_conv_take)
  qed
  have rest: "feed_documents a posts @
      drop (nat (int (length posts) + feed_posts_number (conf a))) posts = posts"
    by (simp only: t append_take_drop_id)
  have le: "nat (int (length posts) + feed_posts_number (conf a)) \<le> length posts"
    using n by simp
  have recent: "(feed_documents a posts = take (nat (- feed_posts_number (conf a))) posts) =
       (nat (int (length posts) + feed_posts_number (conf a)) =
          min (nat (- feed_posts_number (conf a))) (length posts))"
    using le by (simp only: t take_eq_take_iff) (simp add: min_def)
  have written: "\<forall>fs1 f fs2.
        mkdir (dirname (join (paths_output (conf a)) (feed_save_as (conf a)))) fs = Inr fs1 \<and>
        open_w (join (paths_output (conf a)) (feed_save_as (conf a))) fs1 = Inr (f, fs2) \<longrightarrow>
        feed a now posts fs =
          (None, fwrite f
                   (feed_template
                      (take (nat (int (length posts) + feed_posts_number (conf a))) posts)
                      (feed_credentials a now)) fs2)"
  proof (intro allI impI, elim conjE)
    fix fs1 f fs2
    assume "mkdir (dirname (join (paths_output (conf a)) (feed_save_as (conf a)))) fs = Inr fs1"
      and "open_w (join (paths_output (conf a)) (feed_save_as (conf a))) fs1 = Inr (f, fs2)"
    then have "feed a now posts fs =
        (None, fwrite f (feed_template (feed_documents a posts) (feed_credentials a now)) fs2)"
      by (rule feed_written)
    then show "feed a now posts fs =
          (None, fwrite f
                   (feed_template
                      (take (nat (int (length posts) + feed_posts_number (conf a))) posts)
                      (feed_credentials a now)) fs2)"
      by (simp only: t)
  qed
  note err = feed_error [of a now posts fs]
  from t none last rest recent written err show ?thesis
    by (intro conjI)
qed

theorem feed_documents_negative_witness:
  "feed_posts_number (conf ex_app_neg) < 0 \<and>
   feed_documents ex_app_neg [post_b, post_a, post_c] = [post_b, post_a] \<and>
   feed_documents ex_app_neg [post_b, post_a, post_c] \<noteq>
     take (nat (- feed_posts_number (conf ex_app_neg))) [post_b, post_a, post_c] \<and>
   fst (feed ex_app_neg ex_clock [post_b, post_a, post_c] ex_fs) = None \<and>
   files (snd (feed ex_app_neg ex_clock [post_b, post_a, post_c] ex_fs)) ex_feed_node =
     Some (join_lines ex_feed_lines)"
proof -
  have n: "feed_posts_number (conf ex_app_neg) < 0"
    by (simp add: ex_neg_conf_fields)
  note inst = feed_documents_negative [OF n, of "[post_b, post_a, post_c]" ex_fs ex_clock]
  have "feed_documents ex_app_neg [post_b, post_a, post_c] =
          take (nat (int (length [post_b, post_a, post_c]) + feed_posts_number (conf ex_app_neg)))
            [post_b, post_a, post_c]"
    using inst by (rule conjunct1)
  then have d: "feed_documents ex_app_neg [post_b, post_a, post_c] = [post_b, post_a]"
    by (simp add: ex_neg_conf_fields)
  have r: "feed_documents ex_app_neg [post_b, post_a, post_c] \<noteq>
     take (nat (- feed_posts_number (conf ex_app_neg))) [post_b, post_a, post_c]"
    by (simp add: d ex_neg_conf_fields)
  have "feed ex_app_neg ex_clock [post_b, post_a, post_c] ex_fs =
     (None, fwrite ex_feed_node
        (feed_template
           (take (nat (int (length [post_b, post_a, post_c]) + feed_posts_number (conf ex_app_neg)))
              [post_b, post_a, post_c])
           (feed_credentials ex_app_neg ex_clock))
        (ex_fs1\<lparr>files := [ex_feed_node \<mapsto> []]\<rparr>))"
    by (rule inst [THEN conjunct2, THEN conjunct2, THEN conjunct2, THEN conjunct2,
          THEN conjunct2, THEN conjunct1, rule_format])
      (rule conjI [OF ex_neg_feed_mkdir ex_neg_feed_open])
  then have w: "feed ex_app_neg ex_clock [post_b, post_a, post_c] ex_fs =
     (None, fwrite ex_feed_node (join_lines ex_feed_lines)
        (ex_fs1\<lparr>files := [ex_feed_node \<mapsto> []]\<rparr>))"
    by (simp add: ex_neg_conf_fields ex_neg_credentials ex_feed_template)
  from n d r show ?thesis
    by (simp add: w files_fwrite)
qed

text \<open>
  C6. The date of the credentials is the reading of the clock in UTC with the
  microseconds set to zero, a naive object. The fourth line of every feed the template
  renders with these credentials is the \<open>updated\<close> element holding this date as
  \<open>YYYY-MM-DDTHH:MM:SS\<close>, without a fraction of a second and without an offset,
  directly followed by the letter Z, which the template appends as a literal; and when
  the directory of the feed can be made and the file opens, the file \<open>feed\<close> writes
  starts with these four lines.
\<close>

theorem feed_updated_line:
  \<open>date (feed_credentials a now) = (utcnow now)\<lparr>microsecond := 0\<rparr> \<and>
   utcoffset (date (feed_credentials a now)) = None \<and>
   isoformat (date (feed_credentials a now)) @ ''Z'' =
     zfill 4 (year now) @ ''-'' @ zfill 2 (month now) @ ''-'' @ zfill 2 (day now) @ ''T'' @
     zfill 2 (hour now) @ '':'' @ zfill 2 (minute now) @ '':'' @ zfill 2 (second now) @ ''Z'' \<and>
   (\<exists>rest. feed_template documents (feed_credentials a now) =
      ''<?xml version="1.0" encoding="utf-8"?>'' @ newline @
      ''  <feed xmlns="http://www.w3.org/2005/Atom" >'' @ newline @
      ''    <title>'' @ sitename (conf a) @ '' Feed</title>'' @ newline @
      ''    <updated>'' @
        zfill 4 (year now) @ ''-'' @ zfill 2 (month now) @ ''-'' @ zfill 2 (day now) @ ''T'' @
        zfill 2 (hour now) @ '':'' @ zfill 2 (minute now) @ '':'' @ zfill 2 (second now) @
        ''Z'' @ ''</updated>'' @ newline @ rest) \<and>
   (\<forall>fs1 f fs2.
      mkdir (dirname (join (paths_output (conf a)) (feed_save_as (conf a)))) fs = Inr fs1 \<and>
      open_w (join (paths_output (conf a)) (feed_save_as (conf a))) fs1 = Inr (f, fs2) \<longrightarrow>
      (\<exists>rest. files (snd (feed a now posts fs)) f = Some (
        ''<?xml version="1.0" encoding="utf-8"?>'' @ newline @
        ''  <feed xmlns="http://www.w3.org/2005/Atom" >'' @ newline @
        ''    <title>'' @ sitename (conf a) @ '' Feed</title>'' @ newline @
        ''    <updated>'' @
          zfill 4 (year now) @ ''-'' @ zfill 2 (month now) @ ''-'' @ zfill 2 (day now) @ ''T'' @
          zfill 2 (hour now) @ '':'' @ zfill 2 (minute now) @ '':'' @ zfill 2 (second now) @
          ''Z'' @ ''</updated>'' @ newline @ rest)))\<close>
proof -
  have d: "date (feed_credentials a now) = (utcnow now)\<lparr>microsecond := 0\<rparr>"
    by (rule date_feed_credentials)
  have n: "utcoffset (date (feed_credentials a now)) = None"
    by (simp add: d utcnow_def)
  have i: "isoformat (date (feed_credentials a now)) @ ''Z'' =
     zfill 4 (year now) @ ''-'' @ zfill 2 (month now) @ ''-'' @ zfill 2 (day now) @ ''T'' @
     zfill 2 (hour now) @ '':'' @ zfill 2 (minute now) @ '':'' @ zfill 2 (second now) @ ''Z''"
    by (simp add: isoformat_date_feed_credentials)
  have s: "cred_sitename (feed_credentials a now) = sitename (conf a)"
    by (simp add: feed_credentials_def)
  have t: \<open>\<exists>rest. feed_template docs (feed_credentials a now) =
      ''<?xml version="1.0" encoding="utf-8"?>'' @ newline @
      ''  <feed xmlns="http://www.w3.org/2005/Atom" >'' @ newline @
      ''    <title>'' @ sitename (conf a) @ '' Feed</title>'' @ newline @
      ''    <updated>'' @
        zfill 4 (year now) @ ''-'' @ zfill 2 (month now) @ ''-'' @ zfill 2 (day now) @ ''T'' @
        zfill 2 (hour now) @ '':'' @ zfill 2 (minute now) @ '':'' @ zfill 2 (second now) @
        ''Z'' @ ''</updated>'' @ newline @ rest\<close> for docs
    by (simp add: feed_template_top [of docs "feed_credentials a now"] s
        isoformat_date_feed_credentials)
  have w: \<open>\<forall>fs1 f fs2.
      mkdir (dirname (join (paths_output (conf a)) (feed_save_as (conf a)))) fs = Inr fs1 \<and>
      open_w (join (paths_output (conf a)) (feed_save_as (conf a))) fs1 = Inr (f, fs2) \<longrightarrow>
      (\<exists>rest. files (snd (feed a now posts fs)) f = Some (
        ''<?xml version="1.0" encoding="utf-8"?>'' @ newline @
        ''  <feed xmlns="http://www.w3.org/2005/Atom" >'' @ newline @
        ''    <title>'' @ sitename (conf a) @ '' Feed</title>'' @ newline @
        ''    <updated>'' @
          zfill 4 (year now) @ ''-'' @ zfill 2 (month now) @ ''-'' @ zfill 2 (day now) @ ''T'' @
          zfill 2 (hour now) @ '':'' @ zfill 2 (minute now) @ '':'' @ zfill 2 (second now) @
          ''Z'' @ ''</updated>'' @ newline @ rest))\<close>
  proof (intro allI impI, elim conjE)
    fix fs1 f fs2
    assume "mkdir (dirname (join (paths_output (conf a)) (feed_save_as (conf a)))) fs = Inr fs1"
      and "open_w (join (paths_output (conf a)) (feed_save_as (conf a))) fs1 = Inr (f, fs2)"
    then have "feed a now posts fs =
        (None, fwrite f (feed_template (feed_documents a posts) (feed_credentials a now)) fs2)"
      by (rule feed_written)
    then have "files (snd (feed a now posts fs)) f =
        Some (feed_template (feed_documents a posts) (feed_credentials a now))"
      by (simp add: files_fwrite)
    with t [of "feed_documents a posts"]
    show \<open>\<exists>rest. files (snd (feed a now posts fs)) f = Some (
        ''<?xml version="1.0" encoding="utf-8"?>'' @ newline @
        ''  <feed xmlns="http://www.w3.org/2005/Atom" >'' @ newline @
        ''    <title>'' @ sitename (conf a) @ '' Feed</title>'' @ newline @
        ''    <updated>'' @
          zfill 4 (year now) @ ''-'' @ zfill 2 (month now) @ ''-'' @ zfill 2 (day now) @ ''T'' @
          zfill 2 (hour now) @ '':'' @ zfill 2 (minute now) @ '':'' @ zfill 2 (second now) @
          ''Z'' @ ''</updated>'' @ newline @ rest)\<close>
      by (elim exE) (rule exI, simp)
  qed
  from d n i t [of documents] w show ?thesis
    by (intro conjI)
qed

theorem feed_updated_line_witness:
  \<open>microsecond ex_clock = 123456 \<and>
   isoformat (date (feed_credentials ex_app ex_clock)) @ ''Z'' = ''2024-03-09T07:05:01Z'' \<and>
   (\<exists>rest. files (snd (feed ex_app ex_clock [post_b, post_a, post_c] ex_fs)) ex_feed_node =
      Some (''<?xml version="1.0" encoding="utf-8"?>'' @ newline @
            ''  <feed xmlns="http://www.w3.org/2005/Atom" >'' @ newline @
            ''    <title>Blog Feed</title>'' @ newline @
            ''    <updated>2024-03-09T07:05:01Z</updated>'' @ newline @ rest))\<close>
proof -
  note inst = feed_updated_line [of ex_app ex_clock "[post_b, post_a]" ex_fs
      "[post_b, post_a, post_c]"]
  have i: "isoformat (date (feed_credentials ex_app ex_clock)) @ ''Z'' = ''2024-03-09T07:05:01Z''"
    using inst [THEN conjunct2, THEN conjunct2, THEN conjunct1]
    by (simp add: ex_clock_def ex_zfill)
  have \<open>\<exists>rest. files (snd (feed ex_app ex_clock [post_b, post_a, post_c] ex_fs)) ex_feed_node =
      Some (''<?xml version="1.0" encoding="utf-8"?>'' @ newline @
        ''  <feed xmlns="http://www.w3.org/2005/Atom" >'' @ newline @
        ''    <title>'' @ sitename (conf ex_app) @ '' Feed</title>'' @ newline @
        ''    <updated>'' @
          zfill 4 (year ex_clock) @ ''-'' @ zfill 2 (month ex_clock) @ ''-'' @
          zfill 2 (day ex_clock) @ ''T'' @ zfill 2 (hour ex_clock) @ '':'' @
          zfill 2 (minute ex_clock) @ '':'' @ zfill 2 (second ex_clock) @
          ''Z'' @ ''</updated>'' @ newline @ rest)\<close>
    by (rule inst [THEN conjunct2, THEN conjunct2, THEN conjunct2, THEN conjunct2, rule_format])
      (rule conjI [OF ex_feed_mkdir ex_feed_open])
  then have f: \<open>\<exists>rest. files (snd (feed ex_app ex_clock [post_b, post_a, post_c] ex_fs)) ex_feed_node =
      Some (''<?xml version="1.0" encoding="utf-8"?>'' @ newline @
            ''  <feed xmlns="http://www.w3.org/2005/Atom" >'' @ newline @
            ''    <title>Blog Feed</title>'' @ newline @
            ''    <updated>2024-03-09T07:05:01Z</updated>'' @ newline @ rest)\<close>
    by (simp add: ex_conf_fields ex_clock_def ex_zfill)
  have m: "microsecond ex_clock = 123456"
    by (simp add: ex_clock_def)
  from m i f show ?thesis
    by (intro conjI)
qed

text \<open>
  C7. In the credentials of the feed, \<open>siteurl_alt\<close> is \<open>normalize_url\<close> applied to
  the configured \<open>siteurl\<close>: the URL with its scheme (\<open>http://\<close> when it has
  none), followed by a text that neither starts with a slash nor holds two slashes in a
  row; normalizing it again changes nothing. \<open>siteurl_self\<close> is \<open>siteurl_alt\<close>
  followed directly by the configured \<open>save_as\<close> of the feed: the concatenation adds
  and removes nothing. Every feed the template renders with these credentials prints
  \<open>siteurl_alt\<close> as the id and as the alternate link and \<open>siteurl_self\<close> as the
  self link, in its fifth, seventh and eighth line.
\<close>

theorem feed_credentials_urls:
  \<open>siteurl_alt (feed_credentials a now) = normalize_url (siteurl (conf a)) \<and>
   siteurl_self (feed_credentials a now) =
     siteurl_alt (feed_credentials a now) @ feed_save_as (conf a) \<and>
   (\<exists>rest. normalize_url (siteurl (conf a)) = url_scheme (siteurl (conf a)) @ rest \<and>
      \<not> startswith_sep rest \<and> \<not> double_sep rest) \<and>
   (url_scheme (siteurl (conf a)) = ''http://'' \<or> url_scheme (siteurl (conf a)) = ''https://'') \<and>
   normalize_url (normalize_url (siteurl (conf a))) = normalize_url (siteurl (conf a)) \<and>
   (\<exists>rest. feed_template documents (feed_credentials a now) =
      ''<?xml version="1.0" encoding="utf-8"?>'' @ newline @
      ''  <feed xmlns="http://www.w3.org/2005/Atom" >'' @ newline @
      ''    <title>'' @ sitename (conf a) @ '' Feed</title>'' @ newline @
      ''    <updated>'' @ (isoformat (date (feed_credentials a now)) @ ''Z'') @ ''</updated>'' @
      newline @
      ''    <id>'' @ normalize_url (siteurl (conf a)) @ ''</id>'' @ newline @
      ''    '' @ newline @
      ''    <link href="'' @ (normalize_url (siteurl (conf a)) @ feed_save_as (conf a)) @
      ''" rel="self" />'' @ newline @
      ''    <link href="'' @ normalize_url (siteurl (conf a)) @ ''" rel="alternate" />'' @
      newline @ rest)\<close>
proof -
  have alt: "siteurl_alt (feed_credentials a now) = normalize_url (siteurl (conf a))"
    by (simp add: feed_credentials_def)
  have self: "siteurl_self (feed_credentials a now) =
     siteurl_alt (feed_credentials a now) @ feed_save_as (conf a)"
    by (simp add: feed_credentials_def)
  have norm: "\<exists>rest. normalize_url (siteurl (conf a)) = url_scheme (siteurl (conf a)) @ rest \<and>
      \<not> startswith_sep rest \<and> \<not> double_sep rest"
  proof (intro exI conjI)
    show "normalize_url (siteurl (conf a)) = url_scheme (siteurl (conf a)) @
        squeeze_sep (dropWhile (\<lambda>c. c = CHR ''/'') (url_rest (siteurl (conf a))))"
      by (simp add: normalize_url_def)
    show "\<not> startswith_sep
        (squeeze_sep (dropWhile (\<lambda>c. c = CHR ''/'') (url_rest (siteurl (conf a)))))"
      by (simp add: startswith_sep_squeeze not_startswith_sep_dropWhile)
    show "\<not> double_sep
        (squeeze_sep (dropWhile (\<lambda>c. c = CHR ''/'') (url_rest (siteurl (conf a)))))"
      by (rule not_double_sep_squeeze)
  qed
  note scheme = url_scheme_cases [of "siteurl (conf a)"]
  note idem = normalize_url_idem [of "siteurl (conf a)"]
  have s: "cred_sitename (feed_credentials a now) = sitename (conf a)"
    by (simp add: feed_credentials_def)
  have tmpl: \<open>\<exists>rest. feed_template documents (feed_credentials a now) =
      ''<?xml version="1.0" encoding="utf-8"?>'' @ newline @
      ''  <feed xmlns="http://www.w3.org/2005/Atom" >'' @ newline @
      ''    <title>'' @ sitename (conf a) @ '' Feed</title>'' @ newline @
      ''    <updated>'' @ (isoformat (date (feed_credentials a now)) @ ''Z'') @ ''</updated>'' @
      newline @
      ''    <id>'' @ normalize_url (siteurl (conf a)) @ ''</id>'' @ newline @
      ''    '' @ newline @
      ''    <link href="'' @ (normalize_url (siteurl (conf a)) @ feed_save_as (conf a)) @
      ''" rel="self" />'' @ newline @
      ''    <link href="'' @ normalize_url (siteurl (conf a)) @ ''" rel="alternate" />'' @
      newline @ rest\<close>
    by (simp add: feed_template_top [of documents "feed_credentials a now"] s alt self)
  from alt self norm scheme idem tmpl show ?thesis
    by (intro conjI)
qed

theorem feed_credentials_urls_witness:
  \<open>siteurl (conf ex_app) = ''example.com//blog/'' \<and>
   siteurl_alt (feed_credentials ex_app ex_clock) = ''http://example.com/blog/'' \<and>
   siteurl_self (feed_credentials ex_app ex_clock) = ''http://example.com/blog/feed/atom.xml'' \<and>
   feed_template [post_b, post_a] (feed_credentials ex_app ex_clock) = join_lines ex_feed_lines \<and>
   ex_feed_lines ! 4 = ''    <id>http://example.com/blog/</id>'' \<and>
   ex_feed_lines ! 6 = ''    <link href="http://example.com/blog/feed/atom.xml" rel="self" />'' \<and>
   ex_feed_lines ! 7 = ''    <link href="http://example.com/blog/" rel="alternate" />''\<close>
proof -
  note inst = feed_credentials_urls [of ex_app ex_clock "[post_b, post_a]"]
  have u: "siteurl (conf ex_app) = ''example.com//blog/''"
    by (simp add: ex_conf_fields)
  have alt: "siteurl_alt (feed_credentials ex_app ex_clock) = ''http://example.com/blog/''"
    using inst [THEN conjunct1] by (simp add: ex_conf_fields ex_normalize_url)
  have self: "siteurl_self (feed_credentials ex_app ex_clock) =
      ''http://example.com/blog/feed/atom.xml''"
    using inst [THEN conjunct2, THEN conjunct1] by (simp add: alt ex_conf_fields)
  have l: \<open>ex_feed_lines ! 4 = ''    <id>http://example.com/blog/</id>'' \<and>
   ex_feed_lines ! 6 = ''    <link href="http://example.com/blog/feed/atom.xml" rel="self" />'' \<and>
   ex_feed_lines ! 7 = ''    <link href="http://example.com/blog/" rel="alternate" />''\<close>
    by (simp add: ex_feed_lines_def)
  from u alt self ex_feed_template l show ?thesis
    by (intro conjI) simp_all
qed

text \<open>
  C5. \<open>extract_posts\<close> returns exactly the Post documents of its input, so no other
  document is in its result, however many there are and wherever they stand: putting a
  document that is not a Post anywhere into the input changes neither the result of
  \<open>extract_posts\<close> nor anything \<open>generate\<close> does, and \<open>generate\<close> does on the
  whole input what it does on the Post documents alone. \<open>generate\<close> never renders a
  page from a list that holds another document: with a template that raises for every
  such list, \<open>index\<close>, \<open>tags\<close> and the whole of \<open>generate\<close> do exactly the
  same. Every group of the dictionary of tags and the documents of the feed hold Post
  documents only, and when \<open>generate\<close> ends without an exception the file opened for the
  feed holds the Atom template rendered with these documents.
\<close>

theorem non_posts_excluded:
  "set (extract_posts documents) = {d \<in> set documents. isinstance_Post d} \<and>
   (\<forall>d \<in> set (extract_posts documents). isinstance_Post d) \<and>
   (\<forall>xs ys d. \<not> isinstance_Post d \<longrightarrow> extract_posts (xs @ d # ys) = extract_posts (xs @ ys)) \<and>
   generate a now documents fs =
     generate a now (filter (\<lambda>doc. isinstance_Post doc) documents) fs \<and>
   (\<forall>xs ys d. \<not> isinstance_Post d \<longrightarrow>
      generate a now (xs @ d # ys) fs = generate a now (xs @ ys) fs) \<and>
   index (posts_only a) (extract_posts documents) fs = index a (extract_posts documents) fs \<and>
   tags_blog (posts_only a) (extract_posts documents) fs =
     tags_blog a (extract_posts documents) fs \<and>
   generate (posts_only a) now documents fs = generate a now documents fs \<and>
   (\<forall>tag. \<forall>d \<in> set (getitem (tags_dict (extract_posts documents)) tag). isinstance_Post d) \<and>
   (\<forall>d \<in> set (feed_documents a (extract_posts documents)). isinstance_Post d) \<and>
   (fst (generate a now documents fs) = None \<longrightarrow>
      (\<exists>f fs1 fs2.
         open_w (join (paths_output (conf a)) (feed_save_as (conf a))) fs1 = Inr (f, fs2) \<and>
         files (snd (generate a now documents fs)) f =
           Some (feed_template (feed_documents a (extract_posts documents))
                   (feed_credentials a now))))"
proof -
  have s: "set (extract_posts documents) = {d \<in> set documents. isinstance_Post d}"
    by (rule set_extract_posts)
  then have p: "\<forall>d \<in> set (extract_posts documents). isinstance_Post d"
    by simp
  have e: "\<forall>xs ys d. \<not> isinstance_Post d \<longrightarrow>
      extract_posts (xs @ d # ys) = extract_posts (xs @ ys)"
    by (intro allI impI) (rule extract_posts_insert)
  have g: "generate a now documents fs =
      generate a now (filter (\<lambda>doc. isinstance_Post doc) documents) fs"
    by (rule generate_filter [symmetric])
  have h: "\<forall>xs ys d. \<not> isinstance_Post d \<longrightarrow>
      generate a now (xs @ d # ys) fs = generate a now (xs @ ys) fs"
    by (intro allI impI) (rule generate_insert)
  have i: "index (posts_only a) (extract_posts documents) fs =
      index a (extract_posts documents) fs"
    by (rule index_posts_only) (rule list_all_extract_posts)
  have t: "tags_blog (posts_only a) (extract_posts documents) fs =
      tags_blog a (extract_posts documents) fs"
    by (rule tags_blog_posts_only) (rule list_all_extract_posts)
  have o: "generate (posts_only a) now documents fs = generate a now documents fs"
    by (rule generate_posts_only)
  have d: "\<forall>tag. \<forall>d \<in> set (getitem (tags_dict (extract_posts documents)) tag). isinstance_Post d"
  proof (intro allI ballI)
    fix tag d
    assume "d \<in> set (getitem (tags_dict (extract_posts documents)) tag)"
    then have m: "d \<in> set (extract_posts documents)"
      using set_getitem_tags_dict [of "extract_posts documents" tag] by (rule rev_subsetD)
    show "isinstance_Post d" by (rule bspec [OF p m])
  qed
  have f: "\<forall>d \<in> set (feed_documents a (extract_posts documents)). isinstance_Post d"
  proof (intro ballI)
    fix d
    assume "d \<in> set (feed_documents a (extract_posts documents))"
    then have m: "d \<in> set (extract_posts documents)"
      unfolding feed_documents_def
      using set_slice_to [of "extract_posts documents" "feed_posts_number (conf a)"]
      by (rule rev_subsetD)
    show "isinstance_Post d" by (rule bspec [OF p m])
  qed
  have w: "fst (generate a now documents fs) = None \<longrightarrow>
      (\<exists>f fs1 fs2.
         open_w (join (paths_output (conf a)) (feed_save_as (conf a))) fs1 = Inr (f, fs2) \<and>
         files (snd (generate a now documents fs)) f =
           Some (feed_template (feed_documents a (extract_posts documents))
                   (feed_credentials a now)))"
  proof
    assume n: "fst (generate a now documents fs) = None"
    then obtain fs2 where
      q: "generate a now documents fs = feed a now (extract_posts documents) fs2"
      using generate_success by blast
    from n have "fst (feed a now (extract_posts documents) fs2) = None"
      by (simp only: q)
    then have "\<exists>f fs1 fs2'.
        open_w (join (paths_output (conf a)) (feed_save_as (conf a))) fs1 = Inr (f, fs2') \<and>
        files (snd (feed a now (extract_posts documents) fs2)) f =
          Some (feed_template (feed_documents a (extract_posts documents))
                  (feed_credentials a now))"
      by (rule feed_success)
    then show "\<exists>f fs1 fs2.
         open_w (join (paths_output (conf a)) (feed_save_as (conf a))) fs1 = Inr (f, fs2) \<and>
         files (snd (generate a now documents fs)) f =
           Some (feed_template (feed_documents a (extract_posts documents))
                   (feed_credentials a now))"
      by (simp only: q)
  qed
  from s p e g h i t o d f w show ?thesis
    by (intro conjI)
qed

theorem non_posts_excluded_witness:
  "ex_documents =
     [mk_doc Page 9 ''p'' (Some [''go'']), post_a, mk_doc Static 5 ''s'' None, post_b, post_c] \<and>
   \<not> isinstance_Post (mk_doc Page 9 ''p'' (Some [''go''])) \<and>
   \<not> isinstance_Post (mk_doc Static 5 ''s'' None) \<and>
   extract_posts ex_documents = [post_b, post_a, post_c] \<and>
   fst (generate ex_app ex_clock ex_documents ex_fs) = None \<and>
   files (snd (generate ex_app ex_clock ex_documents ex_fs))
     [''site'', ''_build'', ''index.html''] = Some ''Blog:bac'' \<and>
   files (snd (generate ex_app ex_clock ex_documents ex_fs))
     [''site'', ''_build'', ''tags'', ''go'', ''index.html''] = Some ''Blog:b'' \<and>
   files (snd (generate ex_app ex_clock ex_documents ex_fs))
     [''site'', ''_build'', ''tags'', ''py'', ''index.html''] = Some ''Blog:bc'' \<and>
   files (snd (generate ex_app ex_clock ex_documents ex_fs)) ex_feed_node =
     Some (join_lines ex_feed_lines)"
proof -
  note inst = non_posts_excluded [of ex_documents ex_app ex_clock ex_fs]
  have n1: "\<not> isinstance_Post (mk_doc Page 9 ''p'' (Some [''go'']))"
    by (simp add: isinstance_Post_def mk_doc_def)
  have n2: "\<not> isinstance_Post (mk_doc Static 5 ''s'' None)"
    by (simp add: isinstance_Post_def mk_doc_def)
  note ins_e = inst [THEN conjunct2, THEN conjunct2, THEN conjunct1, rule_format]
  note ins_g = inst [THEN conjunct2, THEN conjunct2, THEN conjunct2, THEN conjunct2,
      THEN conjunct1, rule_format]
  have "extract_posts ex_documents =
      extract_posts ([] @ [post_a, mk_doc Static 5 ''s'' None, post_b, post_c])"
    unfolding ex_documents_def using ins_e [OF n1, of "[]"] by simp
  also have "\<dots> = extract_posts ([post_a] @ [post_b, post_c])"
    using ins_e [OF n2, of "[post_a]" "[post_b, post_c]"] by simp
  finally have e: "extract_posts ex_documents = [post_b, post_a, post_c]"
    by (simp add: ex_extract_posts)
  have "generate ex_app ex_clock ex_documents ex_fs =
      generate ex_app ex_clock ([] @ [post_a, mk_doc Static 5 ''s'' None, post_b, post_c]) ex_fs"
    unfolding ex_documents_def using ins_g [OF n1, of "[]"] by simp
  also have "\<dots> = generate ex_app ex_clock ([post_a] @ [post_b, post_c]) ex_fs"
    using ins_g [OF n2, of "[post_a]" "[post_b, post_c]"] by simp
  finally have g: "generate ex_app ex_clock ex_documents ex_fs =
      generate ex_app ex_clock [post_a, post_b, post_c] ex_fs"
    by simp
  from n1 n2 e show ?thesis
    by (simp only: g ex_generate) (simp add: ex_documents_def)
qed



text \<open>
  C8. \<open>index\<close> opens its file without making any directory. When the directory of
  the file (\<open>dirname\<close> of the output directory joined with the configured
  \<open>save_as\<close>) does not exist, \<open>index\<close> ends with one of the errors of the file
  system and leaves the file system as it was; in no case does it change the
  directories. \<open>feed\<close> and \<open>tags\<close> call \<open>mkdir\<close> first: whenever they end
  without an exception, the directory of the feed and the directory of every tag exist
  afterwards, whether they existed before or not.
\<close>

theorem index_parent_missing:
  "(\<not> dir_exists fs (dirname (join (paths_output (conf a)) (index_save_as (conf a)))) \<longrightarrow>
      (\<exists>err. index a posts fs = (Some err, fs) \<and>
         (err = FileNotFoundError \<or> err = NotADirectoryError \<or> err = IsADirectoryError))) \<and>
   dirs (snd (index a posts fs)) = dirs fs \<and>
   (fst (feed a now posts fs) = None \<longrightarrow>
      dir_exists (snd (feed a now posts fs))
        (dirname (join (paths_output (conf a)) (feed_save_as (conf a))))) \<and>
   (\<forall>tag \<in> set (map fst (tags_dict posts)).
      fst (tags_blog a posts fs) = None \<longrightarrow>
      dir_exists (snd (tags_blog a posts fs))
        (join (join (paths_output (conf a)) (tags_output (conf a))) tag))"
proof -
  have i: "\<not> dir_exists fs (dirname (join (paths_output (conf a)) (index_save_as (conf a)))) \<longrightarrow>
      (\<exists>err. index a posts fs = (Some err, fs) \<and>
         (err = FileNotFoundError \<or> err = NotADirectoryError \<or> err = IsADirectoryError))"
  proof
    assume "\<not> dir_exists fs (dirname (join (paths_output (conf a)) (index_save_as (conf a))))"
    then obtain err where e: "index a posts fs = (Some err, fs)" and r: "err \<noteq> RenderError"
      using index_fails_without_parent by blast
    from r have "err = FileNotFoundError \<or> err = NotADirectoryError \<or> err = IsADirectoryError"
      by (cases err) simp_all
    with e show "\<exists>err. index a posts fs = (Some err, fs) \<and>
         (err = FileNotFoundError \<or> err = NotADirectoryError \<or> err = IsADirectoryError)"
      by (intro exI conjI)
  qed
  have d: "dirs (snd (index a posts fs)) = dirs fs"
    using index_dirs [of a posts fs] by (rule conjunct1)
  have f: "fst (feed a now posts fs) = None \<longrightarrow>
      dir_exists (snd (feed a now posts fs))
        (dirname (join (paths_output (conf a)) (feed_save_as (conf a))))"
    by (intro impI) (rule feed_creates)
  have t: "\<forall>tag \<in> set (map fst (tags_dict posts)).
      fst (tags_blog a posts fs) = None \<longrightarrow>
      dir_exists (snd (tags_blog a posts fs))
        (join (join (paths_output (conf a)) (tags_output (conf a))) tag)"
    unfolding tags_blog_def
    by (intro ballI impI) (rule tags_pages_creates)
  from i d f t show ?thesis
    by (intro conjI)
qed

theorem index_parent_missing_witness:
  "dirname (join (paths_output (conf ex_app)) (index_save_as (conf ex_app))) = ''_build'' \<and>
   \<not> dir_exists ex_fs0 ''_build'' \<and>
   index ex_app [post_b, post_a, post_c] ex_fs0 = (Some FileNotFoundError, ex_fs0) \<and>
   \<not> dir_exists ex_fs0 ''_build/feed'' \<and>
   fst (feed ex_app ex_clock [post_b, post_a, post_c] ex_fs0) = None \<and>
   dir_exists (snd (feed ex_app ex_clock [post_b, post_a, post_c] ex_fs0)) ''_build/feed'' \<and>
   \<not> dir_exists ex_fs0 ''_build/tags/go'' \<and>
   fst (tags_blog ex_app [post_b, post_a, post_c] ex_fs0) = None \<and>
   dir_exists (snd (tags_blog ex_app [post_b, post_a, post_c] ex_fs0)) ''_build/tags/go''"
proof -
  note inst = index_parent_missing [of ex_fs0 ex_app "[post_b, post_a, post_c]" ex_clock]
  have p: "dirname (join (paths_output (conf ex_app)) (index_save_as (conf ex_app))) = ''_build''"
    by (simp add: ex_conf_fields ex_paths dirname_def rstrip_sep_def)
  have n: "\<not> dir_exists ex_fs0 ''_build''"
    by (simp add: dir_exists_def components_def start_def startswith_sep_def is_dir_def
        ex_fs0_def)
  have "\<exists>err. index ex_app [post_b, post_a, post_c] ex_fs0 = (Some err, ex_fs0) \<and>
      (err = FileNotFoundError \<or> err = NotADirectoryError \<or> err = IsADirectoryError)"
  proof (rule inst [THEN conjunct1, rule_format])
    show "\<not> dir_exists ex_fs0
        (dirname (join (paths_output (conf ex_app)) (index_save_as (conf ex_app))))"
      unfolding p by (rule n)
  qed
  then obtain err where e: "index ex_app [post_b, post_a, post_c] ex_fs0 = (Some err, ex_fs0)"
    by blast
  have "fst (index ex_app [post_b, post_a, post_c] ex_fs0) = Some FileNotFoundError"
    by (simp add: index_def ex_conf_fields ex_paths open_w_def start_def startswith_sep_def
        is_dir_def ex_fs0_def)
  with e have i: "index ex_app [post_b, post_a, post_c] ex_fs0 = (Some FileNotFoundError, ex_fs0)"
    by simp
  have nf: "\<not> dir_exists ex_fs0 ''_build/feed''"
    by (simp add: dir_exists_def ex_components start_def startswith_sep_def is_dir_def
        ex_fs0_def)
  have f: "fst (feed ex_app ex_clock [post_b, post_a, post_c] ex_fs0) = None"
    by (simp add: feed_error ex_conf_fields ex_feed_path ex_components mkdir_def open_w_def
        start_def startswith_sep_def endswith_sep_def is_dir_def ex_fs0_def)
  have "dir_exists (snd (feed ex_app ex_clock [post_b, post_a, post_c] ex_fs0))
      (dirname (join (paths_output (conf ex_app)) (feed_save_as (conf ex_app))))"
    using f by (rule inst [THEN conjunct2, THEN conjunct2, THEN conjunct1, rule_format])
  then have df: "dir_exists (snd (feed ex_app ex_clock [post_b, post_a, post_c] ex_fs0))
      ''_build/feed''"
    by (simp add: ex_conf_fields ex_feed_path)
  have nt: "\<not> dir_exists ex_fs0 ''_build/tags/go''"
    by (simp add: dir_exists_def ex_paths start_def startswith_sep_def is_dir_def ex_fs0_def)
  have t: "fst (tags_blog ex_app [post_b, post_a, post_c] ex_fs0) = None"
    by (simp add: tags_blog_def ex_tags_dict ex_template ex_conf_fields ex_paths mkdir_def
        open_w_def start_def startswith_sep_def endswith_sep_def is_dir_def fwrite_def
        getitem_def ex_fs0_def Let_def)
  have "''go'' \<in> set (map fst (tags_dict [post_b, post_a, post_c]))"
    by (simp add: ex_tags_dict)
  then have "dir_exists (snd (tags_blog ex_app [post_b, post_a, post_c] ex_fs0))
      (join (join (paths_output (conf ex_app)) (tags_output (conf ex_app))) ''go'')"
    using t by (rule inst [THEN conjunct2, THEN conjunct2, THEN conjunct2, rule_format])
  then have dt: "dir_exists (snd (tags_blog ex_app [post_b, post_a, post_c] ex_fs0))
      ''_build/tags/go''"
    by (simp add: ex_conf_fields ex_paths)
  from p n i nf f df nt t dt show ?thesis
    by (intro conjI)
qed

text \<open>
  C9. What \<open>generate\<close> does is determined by the configuration, the template, the
  documents, the file system it starts from and the clock, and the clock is read for the
  feed only. Two runs from the same file system at two instants either do the same, or
  both end without an exception and differ in nothing but the text written to the file of
  the feed; the two texts are the same before and after the instant they print in the
  line \<open>updated\<close>, and two instants within the same second give the same run. When
  a first run starts from a file system in which no node is both a directory and a file
  and ends without an exception, a second run on the file system it has left ends without
  an exception too and changes only the file of the feed, to the text of its own instant:
  no directory and no other file changes, and within the same second nothing changes at
  all.
\<close>

theorem generate_deterministic:
  "(generate a n1 documents fs = generate a n2 documents fs \<or>
    (\<exists>f fs'.
       generate a n1 documents fs =
         (None, fwrite f (feed_template (feed_documents a (extract_posts documents))
                  (feed_credentials a n1)) fs') \<and>
       generate a n2 documents fs =
         (None, fwrite f (feed_template (feed_documents a (extract_posts documents))
                  (feed_credentials a n2)) fs'))) \<and>
   (\<exists>pre post.
      feed_template (feed_documents a (extract_posts documents)) (feed_credentials a n1) =
        pre @ (isoformat (date (feed_credentials a n1)) @ ''Z'') @ post \<and>
      feed_template (feed_documents a (extract_posts documents)) (feed_credentials a n2) =
        pre @ (isoformat (date (feed_credentials a n2)) @ ''Z'') @ post) \<and>
   (year n1 = year n2 \<and> month n1 = month n2 \<and> day n1 = day n2 \<and> hour n1 = hour n2 \<and>
    minute n1 = minute n2 \<and> second n1 = second n2 \<longrightarrow>
      generate a n1 documents fs = generate a n2 documents fs) \<and>
   (wf_fs fs \<and> fst (generate a n1 documents fs) = None \<longrightarrow>
      (\<exists>f. files (snd (generate a n1 documents fs)) f =
             Some (feed_template (feed_documents a (extract_posts documents))
                     (feed_credentials a n1)) \<and>
           generate a n2 documents (snd (generate a n1 documents fs)) =
             (None, fwrite f (feed_template (feed_documents a (extract_posts documents))
                      (feed_credentials a n2)) (snd (generate a n1 documents fs))))) \<and>
   (wf_fs fs \<and> fst (generate a n1 documents fs) = None \<and>
    year n1 = year n2 \<and> month n1 = month n2 \<and> day n1 = day n2 \<and> hour n1 = hour n2 \<and>
    minute n1 = minute n2 \<and> second n1 = second n2 \<longrightarrow>
      generate a n2 documents (snd (generate a n1 documents fs)) =
        generate a n1 documents fs)"
proof -
  note c1 = generate_clock [of a n1 documents fs n2]
  note c2 = feed_template_clock [of "feed_documents a (extract_posts documents)" a n1 n2]
  have c3: "year n1 = year n2 \<and> month n1 = month n2 \<and> day n1 = day n2 \<and> hour n1 = hour n2 \<and>
      minute n1 = minute n2 \<and> second n1 = second n2 \<longrightarrow>
      generate a n1 documents fs = generate a n2 documents fs"
  proof (intro impI, elim conjE)
    assume "year n1 = year n2" "month n1 = month n2" "day n1 = day n2" "hour n1 = hour n2"
      "minute n1 = minute n2" "second n1 = second n2"
    then have "feed_credentials a n1 = feed_credentials a n2"
      by (rule feed_credentials_seconds)
    with c1 show "generate a n1 documents fs = generate a n2 documents fs"
      by auto
  qed
  have c4: "wf_fs fs \<and> fst (generate a n1 documents fs) = None \<longrightarrow>
      (\<exists>f. files (snd (generate a n1 documents fs)) f =
             Some (feed_template (feed_documents a (extract_posts documents))
                     (feed_credentials a n1)) \<and>
           generate a n2 documents (snd (generate a n1 documents fs)) =
             (None, fwrite f (feed_template (feed_documents a (extract_posts documents))
                      (feed_credentials a n2)) (snd (generate a n1 documents fs))))"
  proof (intro impI, elim conjE)
    assume w: "wf_fs fs" and n: "fst (generate a n1 documents fs) = None"
    have g: "generate a n1 documents fs = (None, snd (generate a n1 documents fs))"
      using n by (simp add: prod_eq_iff)
    from generate_again [OF g w]
    show "\<exists>f. files (snd (generate a n1 documents fs)) f =
             Some (feed_template (feed_documents a (extract_posts documents))
                     (feed_credentials a n1)) \<and>
           generate a n2 documents (snd (generate a n1 documents fs)) =
             (None, fwrite f (feed_template (feed_documents a (extract_posts documents))
                      (feed_credentials a n2)) (snd (generate a n1 documents fs)))"
      by blast
  qed
  have c5: "wf_fs fs \<and> fst (generate a n1 documents fs) = None \<and>
      year n1 = year n2 \<and> month n1 = month n2 \<and> day n1 = day n2 \<and> hour n1 = hour n2 \<and>
      minute n1 = minute n2 \<and> second n1 = second n2 \<longrightarrow>
      generate a n2 documents (snd (generate a n1 documents fs)) =
        generate a n1 documents fs"
  proof (intro impI, elim conjE)
    assume w: "wf_fs fs" and n: "fst (generate a n1 documents fs) = None"
    assume "year n1 = year n2" "month n1 = month n2" "day n1 = day n2" "hour n1 = hour n2"
      "minute n1 = minute n2" "second n1 = second n2"
    then have e: "feed_credentials a n1 = feed_credentials a n2"
      by (rule feed_credentials_seconds)
    have g: "generate a n1 documents fs = (None, snd (generate a n1 documents fs))"
      using n by (simp add: prod_eq_iff)
    from c4 w n obtain f where
      f: "files (snd (generate a n1 documents fs)) f =
          Some (feed_template (feed_documents a (extract_posts documents))
                  (feed_credentials a n2))"
      and r: "generate a n2 documents (snd (generate a n1 documents fs)) =
          (None, fwrite f (feed_template (feed_documents a (extract_posts documents))
                   (feed_credentials a n2)) (snd (generate a n1 documents fs)))"
      unfolding e by blast
    have "generate a n2 documents (snd (generate a n1 documents fs)) =
        (None, snd (generate a n1 documents fs))"
      by (simp only: r fwrite_same [OF f])
    with g show "generate a n2 documents (snd (generate a n1 documents fs)) =
        generate a n1 documents fs"
      by simp
  qed
  from c1 c2 c3 c4 c5 show ?thesis
    by (intro conjI)
qed

theorem generate_deterministic_witness:
  "wf_fs ex_fs \<and>
   fst (generate ex_app ex_clock [post_a, post_b, post_c] ex_fs) = None \<and>
   second (ex_clock\<lparr>microsecond := 0\<rparr>) = second ex_clock \<and>
   microsecond (ex_clock\<lparr>microsecond := 0\<rparr>) \<noteq> microsecond ex_clock \<and>
   generate ex_app (ex_clock\<lparr>microsecond := 0\<rparr>) [post_a, post_b, post_c]
     (snd (generate ex_app ex_clock [post_a, post_b, post_c] ex_fs)) =
     generate ex_app ex_clock [post_a, post_b, post_c] ex_fs \<and>
   files (snd (generate ex_app (ex_clock\<lparr>microsecond := 0\<rparr>) [post_a, post_b, post_c]
     (snd (generate ex_app ex_clock [post_a, post_b, post_c] ex_fs)))) ex_feed_node =
     Some (join_lines ex_feed_lines)"
proof -
  note inst = generate_deterministic [of ex_app ex_clock "[post_a, post_b, post_c]" ex_fs
      "ex_clock\<lparr>microsecond := 0\<rparr>"]
  have w: "wf_fs ex_fs"
    by (simp add: wf_fs_def ex_fs_def)
  have n: "fst (generate ex_app ex_clock [post_a, post_b, post_c] ex_fs) = None"
    by (rule ex_generate(1))
  have s: "second (ex_clock\<lparr>microsecond := 0\<rparr>) = second ex_clock"
    by simp
  have m: "microsecond (ex_clock\<lparr>microsecond := 0\<rparr>) \<noteq> microsecond ex_clock"
    by (simp add: ex_clock_def)
  have g: "generate ex_app (ex_clock\<lparr>microsecond := 0\<rparr>) [post_a, post_b, post_c]
      (snd (generate ex_app ex_clock [post_a, post_b, post_c] ex_fs)) =
      generate ex_app ex_clock [post_a, post_b, post_c] ex_fs"
    using w n
    by (intro inst [THEN conjunct2, THEN conjunct2, THEN conjunct2, THEN conjunct2, rule_format])
      simp
  have f: "files (snd (generate ex_app (ex_clock\<lparr>microsecond := 0\<rparr>) [post_a, post_b, post_c]
      (snd (generate ex_app ex_clock [post_a, post_b, post_c] ex_fs)))) ex_feed_node =
      Some (join_lines ex_feed_lines)"
    by (simp only: g ex_generate(5))
  from w n s m g f show ?thesis
    by (intro conjI)
qed

end
